theory Spec2Isabelle
  imports Main
begin

section \<open>Python strings\<close>

text \<open>
  A Python \<open>str\<close> is modelled as a HOL \<open>string\<close>: a list of 8-bit characters, each
  standing for the Unicode code point of the same number (the Latin-1 range, code points
  0 to 255). The character tables below are the tables of CPython for that range.
\<close>

definition isspace_chr :: "char \<Rightarrow> bool" where
  "isspace_chr c =
     (let n = (of_char c :: nat)
      in (9 \<le> n \<and> n \<le> 13) \<or> (28 \<le> n \<and> n \<le> 32) \<or> n = 133 \<or> n = 160)"

definition isdigit_chr :: "char \<Rightarrow> bool" where
  "isdigit_chr c = (let n = (of_char c :: nat) in 48 \<le> n \<and> n \<le> 57)"

definition isnumeric_chr :: "char \<Rightarrow> bool" where
  "isnumeric_chr c =
     (let n = (of_char c :: nat)
      in (48 \<le> n \<and> n \<le> 57) \<or> n = 178 \<or> n = 179 \<or> n = 185 \<or> (188 \<le> n \<and> n \<le> 190))"

definition lower_chr :: "char \<Rightarrow> char" where
  "lower_chr c =
     (let n = (of_char c :: nat)
      in if (65 \<le> n \<and> n \<le> 90) \<or> (192 \<le> n \<and> n \<le> 214) \<or> (216 \<le> n \<and> n \<le> 222)
         then char_of (n + 32) else c)"

definition lower :: "string \<Rightarrow> string" where
  "lower s = map lower_chr s"

definition isnumeric :: "string \<Rightarrow> bool" where
  "isnumeric s = (s \<noteq> [] \<and> list_all isnumeric_chr s)"

text \<open>\<open>s.strip(chars)\<close>: the characters satisfying \<open>P\<close> are dropped from both ends.\<close>

definition strip_with :: "(char \<Rightarrow> bool) \<Rightarrow> string \<Rightarrow> string" where
  "strip_with P s = rev (dropWhile P (rev (dropWhile P s)))"

definition strip :: "string \<Rightarrow> string" where
  "strip s = strip_with isspace_chr s"

definition strip_chars :: "string \<Rightarrow> string \<Rightarrow> string" where
  "strip_chars chars s = strip_with (\<lambda>c. c \<in> set chars) s"

text \<open>
  The exceptions of the program. Two of the values are particular to the model:
  \<open>RecursionError\<close> is what the decoder of the model answers when its bound is used up
  (it never is, see \<open>json_loads_no_fuel\<close>), and \<open>Unrepresentable\<close> is no exception of
  Python: it marks a JSON text whose value the model has no counterpart for.
\<close>

datatype py_error =
    KeyError string
  | TypeError
  | AttributeError
  | IndexError
  | ValueError
  | FileNotFoundError
  | PermissionError
  | JSONDecodeError
  | RecursionError
  | RequestException
  | Unrepresentable

text \<open>
  \<open>int(s)\<close> in base 10: surrounding whitespace is dropped, one sign is allowed, and the
  digits may be grouped by single underscores. Anything else is a \<open>ValueError\<close>.
\<close>

definition dec_value :: "string \<Rightarrow> nat" where
  "dec_value ds = foldl (\<lambda>a c. 10 * a + (of_char c - 48)) 0 ds"

fun digits_rest :: "string \<Rightarrow> bool" where
  "digits_rest [] = True"
| "digits_rest (c # cs) =
     (if c = CHR ''_''
      then (case cs of [] \<Rightarrow> False | d # ds \<Rightarrow> isdigit_chr d \<and> digits_rest ds)
      else isdigit_chr c \<and> digits_rest cs)"

definition digits_ok :: "string \<Rightarrow> bool" where
  "digits_ok s = (case s of [] \<Rightarrow> False | c # cs \<Rightarrow> isdigit_chr c \<and> digits_rest cs)"

definition py_int :: "string \<Rightarrow> py_error + int" where
  "py_int s =
     (let t = strip s;
          neg = (case t of [] \<Rightarrow> False | c # _ \<Rightarrow> c = CHR ''-'');
          u = (case t of [] \<Rightarrow> [] | c # cs \<Rightarrow> if c = CHR ''-'' \<or> c = CHR ''+'' then cs else t)
      in if digits_ok u
         then (let v = int (dec_value (filter (\<lambda>c. c \<noteq> CHR ''_'') u))
               in Inr (if neg then - v else v))
         else Inl ValueError)"

text \<open>\<open>xs[i]\<close> on a list: a negative index counts from the end, and an index outside the
  list raises \<open>IndexError\<close>.\<close>

definition py_index :: "'a list \<Rightarrow> int \<Rightarrow> py_error + 'a" where
  "py_index xs i =
     (let j = (if i < 0 then i + int (length xs) else i)
      in if j < 0 \<or> int (length xs) \<le> j then Inl IndexError else Inr (xs ! nat j))"

section \<open>National sites\<close>

record NationalSite =
  category :: string
  name :: string
  address :: string
  zipcode :: string
  phone :: string
  url :: "string option"

text \<open>\<open>NationalSite.__init__\<close>: every field is stored as given, except the phone, from
  which \<open>phone.strip('\n')\<close> removes leading and trailing newline characters.\<close>

definition NationalSite_init ::
  "string \<Rightarrow> string \<Rightarrow> string \<Rightarrow> string \<Rightarrow> string \<Rightarrow> string option \<Rightarrow> NationalSite" where
  "NationalSite_init category' name' address' zipcode' phone' url' =
     \<lparr> category = category', name = name', address = address', zipcode = zipcode',
       phone = strip_chars [CHR 0x0A] phone', url = url' \<rparr>"

text \<open>
  The last lines of \<open>get_site_instance\<close>, from the texts that the page parser returned
  for the six elements it looks up (\<open>get_text()\<close> of each): the designation and the
  postal code are stripped of whitespace, the locality and the region are joined by a
  comma, and the telephone text goes to the constructor as it is.
\<close>

definition site_of_texts ::
  "string \<Rightarrow> string \<Rightarrow> string \<Rightarrow> string \<Rightarrow> string \<Rightarrow> string \<Rightarrow> NationalSite" where
  "site_of_texts title designation postal locality region tel =
     (let name' = title;
          category' = strip designation;
          zip_code = strip postal;
          address' = locality @ '', '' @ region;
          phone' = tel
      in NationalSite_init category' name' address' zip_code phone' None)"

section \<open>The site selection prompt\<close>

text \<open>
  One turn of the inner loop of the main program, from the line read at the prompt to
  what the loop does next: leave for the state prompt (\<open>"back"\<close>), leave the program
  (\<open>"exit"\<close>), fetch and print the places near a site and prompt again, print
  \<open>[Error] Invalid input\<close> and prompt again, or stop on an exception.
\<close>

datatype select_outcome =
    Leave_To_States
  | Leave_Program
  | Show_Nearby NationalSite
  | Invalid_Input
  | Raised py_error

definition site_select :: "NationalSite list \<Rightarrow> string \<Rightarrow> select_outcome" where
  "site_select sites_list line =
     (let option = lower line
      in if option = ''back'' then Leave_To_States
         else if option = ''exit'' then Leave_Program
         else if isnumeric option then
           (case py_int option of
              Inl e \<Rightarrow> Raised e
            | Inr k \<Rightarrow>
                if k \<le> int (length sites_list) \<and> isnumeric option
                then (case py_index sites_list (k - 1) of
                        Inl e \<Rightarrow> Raised e
                      | Inr site \<Rightarrow> Show_Nearby site)
                else Invalid_Input)
         else Invalid_Input)"

text \<open>The decimal numeral of a natural number: what is typed at the prompt to select
  the site of that number, and what \<open>json.dumps\<close> writes for an integer.\<close>

definition digit_chr :: "nat \<Rightarrow> char" where
  "digit_chr d = char_of (48 + d)"

function str_nat :: "nat \<Rightarrow> string" where
  "str_nat n = (if n < 10 then [digit_chr n] else str_nat (n div 10) @ [digit_chr (n mod 10)])"
  by pat_completeness auto
termination
  by (relation "measure id") auto

declare str_nat.simps [simp del]

section \<open>JSON values\<close>

text \<open>
  The values that \<open>json.loads\<close> returns and the cache holds: \<open>None\<close>, booleans,
  integers, strings, lists, and dictionaries with string keys. A dictionary is the list
  of its items in insertion order, with pairwise distinct keys. Floating-point numbers
  are outside the model: a JSON text with a float in it has no value here.
\<close>

datatype json =
    JNull
  | JBool bool
  | JInt int
  | JStr string
  | JArr "json list"
  | JObj "(string \<times> json) list"

text \<open>\<open>d[k] = v\<close> on the items of a dictionary: an existing key keeps its place and gets
  the new value, a new key goes to the end.\<close>

fun dict_set :: "string \<Rightarrow> json \<Rightarrow> (string \<times> json) list \<Rightarrow> (string \<times> json) list" where
  "dict_set k v [] = [(k, v)]"
| "dict_set k v (kv # kvs) = (if fst kv = k then (k, v) # kvs else kv # dict_set k v kvs)"

text \<open>\<open>needle in s\<close> on strings: the substring test.\<close>

fun str_contains :: "string \<Rightarrow> string \<Rightarrow> bool" where
  "str_contains needle [] = (needle = [])"
| "str_contains needle (c # cs) =
     (take (length needle) (c # cs) = needle \<or> str_contains needle cs)"

text \<open>\<open>key in obj\<close>, \<open>obj[key]\<close>, \<open>obj[key] = v\<close>, \<open>obj.strip()\<close> and \<open>for x in obj\<close>,
  for a string \<open>key\<close> and an object of any JSON type.\<close>

definition py_contains :: "json \<Rightarrow> string \<Rightarrow> py_error + bool" where
  "py_contains obj key =
     (case obj of
        JObj kvs \<Rightarrow> Inr (key \<in> fst ` set kvs)
      | JArr xs \<Rightarrow> Inr (JStr key \<in> set xs)
      | JStr s \<Rightarrow> Inr (str_contains key s)
      | _ \<Rightarrow> Inl TypeError)"

definition py_getitem :: "json \<Rightarrow> string \<Rightarrow> py_error + json" where
  "py_getitem obj key =
     (case obj of
        JObj kvs \<Rightarrow> (case map_of kvs key of None \<Rightarrow> Inl (KeyError key) | Some v \<Rightarrow> Inr v)
      | _ \<Rightarrow> Inl TypeError)"

definition py_setitem :: "json \<Rightarrow> string \<Rightarrow> json \<Rightarrow> py_error + json" where
  "py_setitem obj key v =
     (case obj of
        JObj kvs \<Rightarrow> Inr (JObj (dict_set key v kvs))
      | _ \<Rightarrow> Inl TypeError)"

definition py_strip :: "json \<Rightarrow> py_error + string" where
  "py_strip obj = (case obj of JStr s \<Rightarrow> Inr (strip s) | _ \<Rightarrow> Inl AttributeError)"

definition py_iter :: "json \<Rightarrow> py_error + json list" where
  "py_iter obj =
     (case obj of
        JArr xs \<Rightarrow> Inr xs
      | JObj kvs \<Rightarrow> Inr (map (\<lambda>kv. JStr (fst kv)) kvs)
      | JStr s \<Rightarrow> Inr (map (\<lambda>c. JStr [c]) s)
      | _ \<Rightarrow> Inl TypeError)"

section \<open>Nearby places\<close>

record NearbyPlace =
  nearby_name :: json
  nearby_category :: string
  nearby_street_address :: string
  nearby_city_name :: string

text \<open>\<open>member['fields'][key].strip()\<close>, with every exception it can raise.\<close>

definition field_text :: "json \<Rightarrow> string \<Rightarrow> py_error + string" where
  "field_text member key =
     (case py_getitem member ''fields'' of
        Inl e \<Rightarrow> Inl e
      | Inr fields' \<Rightarrow>
          (case py_getitem fields' key of
             Inl e \<Rightarrow> Inl e
           | Inr v \<Rightarrow> py_strip v))"

text \<open>
  The three \<open>try\<close> blocks of the loop body. In the first, the handler reads the second
  field name outside any \<open>try\<close>, so what it raises leaves the loop; the other two
  handlers assign the sentinel.
\<close>

definition category_of :: "json \<Rightarrow> py_error + string" where
  "category_of member =
     (case field_text member ''group_sic_code_name'' of
        Inr c \<Rightarrow> Inr (if c = [] then ''no category'' else c)
      | Inl _ \<Rightarrow> field_text member ''group_sic_code_name_ext'')"

definition street_address_of :: "json \<Rightarrow> string" where
  "street_address_of member =
     (case field_text member ''address'' of
        Inr a \<Rightarrow> (if a = [] then ''no address'' else a)
      | Inl _ \<Rightarrow> ''no address'')"

definition city_name_of :: "json \<Rightarrow> string" where
  "city_name_of member =
     (case field_text member ''city'' of
        Inr c \<Rightarrow> (if c = [] then ''no city'' else c)
      | Inl _ \<Rightarrow> ''no city'')"

definition nearby_of_member :: "json \<Rightarrow> py_error + NearbyPlace" where
  "nearby_of_member member =
     (case py_getitem member ''name'' of
        Inl e \<Rightarrow> Inl e
      | Inr n \<Rightarrow>
          (case category_of member of
             Inl e \<Rightarrow> Inl e
           | Inr c \<Rightarrow>
               Inr \<lparr> nearby_name = n, nearby_category = c,
                     nearby_street_address = street_address_of member,
                     nearby_city_name = city_name_of member \<rparr>))"

text \<open>The \<open>for\<close> loop: one record is appended per member, and the first exception ends
  the loop and the function.\<close>

fun flatten_members :: "json list \<Rightarrow> NearbyPlace list \<Rightarrow> py_error + NearbyPlace list" where
  "flatten_members [] nearby_instance_list = Inr nearby_instance_list"
| "flatten_members (member # members) nearby_instance_list =
     (case nearby_of_member member of
        Inl e \<Rightarrow> Inl e
      | Inr p \<Rightarrow> flatten_members members (nearby_instance_list @ [p]))"

definition make_nearby_instance_list :: "json \<Rightarrow> py_error + NearbyPlace list" where
  "make_nearby_instance_list nearby_dict =
     (case py_getitem nearby_dict ''searchResults'' of
        Inl e \<Rightarrow> Inl e
      | Inr results \<Rightarrow>
          (case py_iter results of
             Inl e \<Rightarrow> Inl e
           | Inr members \<Rightarrow> flatten_members members []))"

section \<open>The JSON text of a value: \<open>json.dumps\<close>\<close>

text \<open>
  With the default arguments: items are separated by a comma and a space, a key from
  its value by a colon and a space, and in a string every character outside the
  printable ASCII range, the double quote and the backslash are escaped.
\<close>

definition hex_chr :: "nat \<Rightarrow> char" where
  "hex_chr d = (if d < 10 then char_of (48 + d) else char_of (87 + d))"

definition escape_chr :: "char \<Rightarrow> string" where
  "escape_chr c =
     (let n = (of_char c :: nat)
      in if n = 34 then [CHR 0x5C, CHR 0x22]
         else if n = 92 then [CHR 0x5C, CHR 0x5C]
         else if n = 8 then [CHR 0x5C, CHR ''b'']
         else if n = 12 then [CHR 0x5C, CHR ''f'']
         else if n = 10 then [CHR 0x5C, CHR ''n'']
         else if n = 13 then [CHR 0x5C, CHR ''r'']
         else if n = 9 then [CHR 0x5C, CHR ''t'']
         else if 32 \<le> n \<and> n \<le> 126 then [c]
         else [CHR 0x5C, CHR ''u'', CHR ''0'', CHR ''0'', hex_chr (n div 16), hex_chr (n mod 16)])"

definition dumps_str :: "string \<Rightarrow> string" where
  "dumps_str s = CHR 0x22 # concat (map escape_chr s) @ [CHR 0x22]"

definition dumps_int :: "int \<Rightarrow> string" where
  "dumps_int i = (if i < 0 then CHR ''-'' # str_nat (nat (- i)) else str_nat (nat i))"

fun json_dumps :: "json \<Rightarrow> string"
  and dumps_elems :: "json list \<Rightarrow> string"
  and dumps_members :: "(string \<times> json) list \<Rightarrow> string" where
  "json_dumps JNull = ''null''"
| "json_dumps (JBool b) = (if b then ''true'' else ''false'')"
| "json_dumps (JInt i) = dumps_int i"
| "json_dumps (JStr s) = dumps_str s"
| "json_dumps (JArr xs) = CHR ''['' # dumps_elems xs @ '']''"
| "json_dumps (JObj kvs) = CHR ''{'' # dumps_members kvs @ ''}''"
| "dumps_elems [] = []"
| "dumps_elems [x] = json_dumps x"
| "dumps_elems (x # y # xs) = json_dumps x @ '', '' @ dumps_elems (y # xs)"
| "dumps_members [] = []"
| "dumps_members [(k, v)] = dumps_str k @ '': '' @ json_dumps v"
| "dumps_members ((k, v) # kv # kvs) =
     dumps_str k @ '': '' @ json_dumps v @ '', '' @ dumps_members (kv # kvs)"

section \<open>Reading JSON text: \<open>json.loads\<close>\<close>

text \<open>
  The decoder of the standard library, in its default (strict) mode. Every syntax error
  is a \<open>JSONDecodeError\<close>. Two kinds of text denote values that the model has no
  counterpart for, and the decoder of the model answers \<open>Unrepresentable\<close> where it
  meets them: a number with a fraction or an exponent and the literals \<open>NaN\<close>,
  \<open>Infinity\<close> and \<open>-Infinity\<close> (floats), and an escape \<open>\uXXXX\<close> above \<open>00ff\<close>.
\<close>

definition is_ws :: "char \<Rightarrow> bool" where
  "is_ws c = (c = CHR '' '' \<or> c = CHR 0x09 \<or> c = CHR 0x0A \<or> c = CHR 0x0D)"

definition skip_ws :: "string \<Rightarrow> string" where
  "skip_ws s = dropWhile is_ws s"

definition hex_val :: "char \<Rightarrow> nat option" where
  "hex_val c =
     (let n = (of_char c :: nat)
      in if 48 \<le> n \<and> n \<le> 57 then Some (n - 48)
         else if 97 \<le> n \<and> n \<le> 102 then Some (n - 87)
         else if 65 \<le> n \<and> n \<le> 70 then Some (n - 55)
         else None)"

definition decode_u4 :: "string \<Rightarrow> nat option" where
  "decode_u4 r =
     (case r of
        a # b # c # d # _ \<Rightarrow>
          (case hex_val a of None \<Rightarrow> None | Some w \<Rightarrow>
          (case hex_val b of None \<Rightarrow> None | Some x \<Rightarrow>
          (case hex_val c of None \<Rightarrow> None | Some y \<Rightarrow>
          (case hex_val d of None \<Rightarrow> None | Some z \<Rightarrow>
             Some (((w * 16 + x) * 16 + y) * 16 + z)))))
      | _ \<Rightarrow> None)"

definition unescape_chr :: "char \<Rightarrow> char option" where
  "unescape_chr e =
     (if e = CHR 0x22 then Some (CHR 0x22)
      else if e = CHR 0x5C then Some (CHR 0x5C)
      else if e = CHR ''/'' then Some (CHR ''/'')
      else if e = CHR ''b'' then Some (CHR 0x08)
      else if e = CHR ''f'' then Some (CHR 0x0C)
      else if e = CHR ''n'' then Some (CHR 0x0A)
      else if e = CHR ''r'' then Some (CHR 0x0D)
      else if e = CHR ''t'' then Some (CHR 0x09)
      else None)"

definition cons_res :: "'a \<Rightarrow> py_error + ('a list \<times> string) \<Rightarrow> py_error + ('a list \<times> string)" where
  "cons_res x r = (case r of Inl e \<Rightarrow> Inl e | Inr (xs, rest) \<Rightarrow> Inr (x # xs, rest))"

text \<open>\<open>scanstring\<close>, from the character after the opening quote: the string and the
  text after its closing quote.\<close>

fun scanstring :: "string \<Rightarrow> py_error + (string \<times> string)" where
  "scanstring [] = Inl JSONDecodeError"
| "scanstring (c # cs) =
     (if c = CHR 0x22 then Inr ([], cs)
      else if c = CHR 0x5C then
        (case cs of
           [] \<Rightarrow> Inl JSONDecodeError
         | e # r \<Rightarrow>
             if e = CHR ''u'' then
               (case decode_u4 r of
                  None \<Rightarrow> Inl JSONDecodeError
                | Some uni \<Rightarrow>
                    if uni < 256 then cons_res (char_of uni) (scanstring (drop 4 r))
                    else Inl Unrepresentable)
             else
               (case unescape_chr e of
                  None \<Rightarrow> Inl JSONDecodeError
                | Some ch \<Rightarrow> cons_res ch (scanstring r)))
      else if (of_char c :: nat) < 32 then Inl JSONDecodeError
      else cons_res c (scanstring cs))"

text \<open>The number pattern \<open>-?(0|[1-9][0-9]*)\<close>, then the test for a fraction
  \<open>\.[0-9]+\<close> or an exponent \<open>[eE][-+]?[0-9]+\<close> after it.\<close>

definition is_float_tail :: "string \<Rightarrow> bool" where
  "is_float_tail rest =
     (case rest of
        c # d # r \<Rightarrow>
          (c = CHR ''.'' \<and> isdigit_chr d) \<or>
          ((c = CHR ''e'' \<or> c = CHR ''E'') \<and>
             (isdigit_chr d \<or>
              ((d = CHR ''+'' \<or> d = CHR ''-'') \<and> (case r of [] \<Rightarrow> False | x # _ \<Rightarrow> isdigit_chr x))))
      | _ \<Rightarrow> False)"

definition scan_number :: "string \<Rightarrow> (py_error + (json \<times> string)) option" where
  "scan_number s =
     (let neg = (case s of [] \<Rightarrow> False | c # _ \<Rightarrow> c = CHR ''-'');
          s1 = (if neg then tl s else s)
      in case s1 of
           [] \<Rightarrow> None
         | c # cs \<Rightarrow>
             if isdigit_chr c then
               (let ds = (if c = CHR ''0'' then [c] else c # takeWhile isdigit_chr cs);
                    rest = (if c = CHR ''0'' then cs else dropWhile isdigit_chr cs);
                    v = int (dec_value ds)
                in Some (if is_float_tail rest then Inl Unrepresentable
                         else Inr (JInt (if neg then - v else v), rest)))
             else None)"

text \<open>\<open>dict(pairs)\<close>: of two items with the same key the later value is kept, at the
  place of the first.\<close>

definition dict_of_pairs :: "(string \<times> json) list \<Rightarrow> (string \<times> json) list" where
  "dict_of_pairs pairs = foldl (\<lambda>d kv. dict_set (fst kv) (snd kv) d) [] pairs"

text \<open>
  \<open>scan_once\<close> with the array and the object loops. The first argument bounds the depth
  of the calls. \<open>json_loads\<close> starts with twice the length of the text plus one, which
  is never used up: a call takes one unit, and a nested call comes after a character has
  been consumed. (The recursion limit of the interpreter itself is not modelled.)
  \<open>parse_elems\<close> starts at the first element of a non-empty array, \<open>parse_members\<close>
  after the opening quote of a key.
\<close>

fun scan_once :: "nat \<Rightarrow> string \<Rightarrow> py_error + (json \<times> string)"
  and parse_elems :: "nat \<Rightarrow> string \<Rightarrow> py_error + (json list \<times> string)"
  and parse_members :: "nat \<Rightarrow> string \<Rightarrow> py_error + ((string \<times> json) list \<times> string)" where
  "scan_once 0 s = Inl RecursionError"
| "scan_once (Suc n) s =
     (case s of
        [] \<Rightarrow> Inl JSONDecodeError
      | c # cs \<Rightarrow>
          if c = CHR 0x22 then
            (case scanstring cs of Inl e \<Rightarrow> Inl e | Inr (str, r) \<Rightarrow> Inr (JStr str, r))
          else if c = CHR ''{'' then
            (case skip_ws cs of
               [] \<Rightarrow> Inl JSONDecodeError
             | d # r \<Rightarrow>
                 if d = CHR ''}'' then Inr (JObj [], r)
                 else if d = CHR 0x22 then
                   (case parse_members n r of
                      Inl e \<Rightarrow> Inl e
                    | Inr (pairs, r') \<Rightarrow> Inr (JObj (dict_of_pairs pairs), r'))
                 else Inl JSONDecodeError)
          else if c = CHR ''['' then
            (case skip_ws cs of
               [] \<Rightarrow> Inl JSONDecodeError
             | d # r \<Rightarrow>
                 if d = CHR '']'' then Inr (JArr [], r)
                 else
                   (case parse_elems n (d # r) of
                      Inl e \<Rightarrow> Inl e
                    | Inr (vs, r') \<Rightarrow> Inr (JArr vs, r')))
          else if take 4 s = ''null'' then Inr (JNull, drop 4 s)
          else if take 4 s = ''true'' then Inr (JBool True, drop 4 s)
          else if take 5 s = ''false'' then Inr (JBool False, drop 5 s)
          else
            (case scan_number s of
               Some r \<Rightarrow> r
             | None \<Rightarrow>
                 if take 3 s = ''NaN'' \<or> take 8 s = ''Infinity'' \<or> take 9 s = ''-Infinity''
                 then Inl Unrepresentable
                 else Inl JSONDecodeError))"
| "parse_elems 0 s = Inl RecursionError"
| "parse_elems (Suc n) s =
     (case scan_once n s of
        Inl e \<Rightarrow> Inl e
      | Inr (v, r) \<Rightarrow>
          (case skip_ws r of
             [] \<Rightarrow> Inl JSONDecodeError
           | d # r' \<Rightarrow>
               if d = CHR '']'' then Inr ([v], r')
               else if d = CHR '','' then cons_res v (parse_elems n (skip_ws r'))
               else Inl JSONDecodeError))"
| "parse_members 0 s = Inl RecursionError"
| "parse_members (Suc n) s =
     (case scanstring s of
        Inl e \<Rightarrow> Inl e
      | Inr (key, r) \<Rightarrow>
          (case skip_ws r of
             [] \<Rightarrow> Inl JSONDecodeError
           | d # r1 \<Rightarrow>
               if d \<noteq> CHR '':'' then Inl JSONDecodeError
               else
                 (case scan_once n (skip_ws r1) of
                    Inl e \<Rightarrow> Inl e
                  | Inr (v, r2) \<Rightarrow>
                      (case skip_ws r2 of
                         [] \<Rightarrow> Inl JSONDecodeError
                       | d' # r3 \<Rightarrow>
                           if d' = CHR ''}'' then Inr ([(key, v)], r3)
                           else if d' = CHR '','' then
                             (case skip_ws r3 of
                                [] \<Rightarrow> Inl JSONDecodeError
                              | q # r4 \<Rightarrow>
                                  if q = CHR 0x22 then cons_res (key, v) (parse_members n r4)
                                  else Inl JSONDecodeError)
                           else Inl JSONDecodeError))))"

definition json_loads :: "string \<Rightarrow> py_error + json" where
  "json_loads s =
     (case scan_once (Suc (2 * length s)) (skip_ws s) of
        Inl e \<Rightarrow> Inl e
      | Inr (v, r) \<Rightarrow> if skip_ws r = [] then Inr v else Inl JSONDecodeError)"

section \<open>The cache file and the network\<close>

text \<open>
  What the program acts on: the file \<open>project2.json\<close> (absent, closed to this process,
  or holding a text), the requests sent so far, the arguments of the calls of
  \<open>save_cache\<close> so far, and the lines printed. The network is a parameter: from the
  requests already sent and the request at hand (a URL and its query parameters) it
  gives the body of the response, or the exception that \<open>requests.get\<close> raises.
\<close>

datatype file_state = Missing | Locked | File string

type_synonym request = "string \<times> (string \<times> json) list"

type_synonym network = "request list \<Rightarrow> request \<Rightarrow> py_error + string"

record world =
  cache_file :: file_state
  requests_log :: "request list"
  save_calls :: "json list"
  stdout :: "string list"

definition print_line :: "string \<Rightarrow> world \<Rightarrow> world" where
  "print_line l w = w\<lparr>stdout := stdout w @ [l]\<rparr>"

text \<open>\<open>requests.get\<close>: the request is sent (and logged) whatever the answer is.\<close>

definition requests_get :: "network \<Rightarrow> request \<Rightarrow> world \<Rightarrow> (py_error + string) \<times> world" where
  "requests_get net req w = (net (requests_log w) req, w\<lparr>requests_log := requests_log w @ [req]\<rparr>)"

definition load_cache :: "world \<Rightarrow> py_error + json" where
  "load_cache w =
     (case cache_file w of
        Missing \<Rightarrow> Inr (JObj [])
      | Locked \<Rightarrow> Inl PermissionError
      | File contents \<Rightarrow> json_loads contents)"

definition save_cache :: "json \<Rightarrow> world \<Rightarrow> (py_error + unit) \<times> world" where
  "save_cache cache w =
     (let w1 = w\<lparr>save_calls := save_calls w @ [cache]\<rparr>
      in case cache_file w of
           Locked \<Rightarrow> (Inl PermissionError, w1)
         | _ \<Rightarrow>
             (let contents_to_write = json_dumps cache
              in (Inr (), w1\<lparr>cache_file := File contents_to_write\<rparr>)))"

text \<open>
  \<open>make_url_request_using_cache\<close> changes the dictionary it is given in place: the
  result is what it returns or raises, the dictionary afterwards, and the world
  afterwards.
\<close>

definition make_url_request_using_cache ::
  "network \<Rightarrow> string \<Rightarrow> json \<Rightarrow> world \<Rightarrow> (py_error + json) \<times> json \<times> world" where
  "make_url_request_using_cache net url' cache w =
     (case cache of
        JObj kvs \<Rightarrow>
          if url' \<in> fst ` set kvs then
            (py_getitem cache url', cache, print_line ''Using cache'' w)
          else
            (case requests_get net (url', []) (print_line ''Fetching'' w) of
               (Inl e, w') \<Rightarrow> (Inl e, cache, w')
             | (Inr text', w') \<Rightarrow>
                 (let cache' = JObj (dict_set url' (JStr text') kvs)
                  in case save_cache cache' w' of
                       (Inl e, w'') \<Rightarrow> (Inl e, cache', w'')
                     | (Inr _, w'') \<Rightarrow> (py_getitem cache' url', cache', w'')))
      | _ \<Rightarrow> (Inl AttributeError, cache, w))"

text \<open>
  \<open>make_request_with_cache_api\<close>. The API key comes from a module that is not part of
  the sources and is a parameter. \<open>response.json()\<close> decodes the body of the response.
\<close>

definition api_params :: "string \<Rightarrow> NationalSite \<Rightarrow> (string \<times> json) list" where
  "api_params api_key site_object =
     [(''key'', JStr api_key), (''origin'', JStr (zipcode site_object)), (''radius'', JInt 10),
      (''maxMatches'', JInt 10), (''ambiguities'', JStr ''ignore''), (''outFormat'', JStr ''json'')]"

definition make_request_with_cache_api ::
  "network \<Rightarrow> string \<Rightarrow> string \<Rightarrow> NationalSite \<Rightarrow> world \<Rightarrow> (py_error + json) \<times> world" where
  "make_request_with_cache_api net api_key url' site_object w =
     (case load_cache w of
        Inl e \<Rightarrow> (Inl e, w)
      | Inr cache_file' \<Rightarrow>
          (let params = api_params api_key site_object
           in case py_contains cache_file' (name site_object) of
                Inl e \<Rightarrow> (Inl e, w)
              | Inr True \<Rightarrow>
                  (py_getitem cache_file' (name site_object), print_line ''Using cache'' w)
              | Inr False \<Rightarrow>
                  (case requests_get net (url', params) (print_line ''Fetching'' w) of
                     (Inl e, w') \<Rightarrow> (Inl e, w')
                   | (Inr body, w') \<Rightarrow>
                       (case json_loads body of
                          Inl e \<Rightarrow> (Inl e, w')
                        | Inr response \<Rightarrow>
                            (case py_setitem cache_file' (name site_object) response of
                               Inl e \<Rightarrow> (Inl e, w')
                             | Inr cache'' \<Rightarrow>
                                 (case save_cache cache'' w' of
                                    (Inl e, w'') \<Rightarrow> (Inl e, w'')
                                  | (Inr _, w'') \<Rightarrow>
                                      (py_getitem cache'' (name site_object), w'')))))))"

definition get_nearby_places ::
  "network \<Rightarrow> string \<Rightarrow> NationalSite \<Rightarrow> world \<Rightarrow> (py_error + json) \<times> world" where
  "get_nearby_places net api_key site_object w =
     make_request_with_cache_api net api_key ''http://www.mapquestapi.com/search/v2/radius''
       site_object w"


section \<open>Notions of the specification\<close>

text \<open>
  An entry of the result list lacks its address when it has a \<open>fields\<close> dictionary in
  which the key \<open>address\<close> is absent, or is a string that is blank (empty once
  stripped).
\<close>

definition lacks_address :: "json \<Rightarrow> bool" where
  "lacks_address member =
     (case member of
        JObj kvs \<Rightarrow>
          (case map_of kvs ''fields'' of
             Some (JObj fs) \<Rightarrow>
               (case map_of fs ''address'' of
                  None \<Rightarrow> True
                | Some (JStr a) \<Rightarrow> strip a = []
                | Some _ \<Rightarrow> False)
           | _ \<Rightarrow> False)
      | _ \<Rightarrow> False)"

section \<open>Example values\<close>

text \<open>A site, the body of an API response without results (\<open>{"searchResults": []}\<close>),
  a world in which nothing has happened yet, and the address of the places API.\<close>

definition isle_royale :: NationalSite where
  "isle_royale =
     NationalSite_init ''National Park'' ''Isle Royale'' ''Houghton, MI'' ''49931''
       ''(906) 482-0984'' None"

definition no_places_body :: string where
  "no_places_body = CHR ''{'' # CHR 0x22 # ''searchResults'' @ CHR 0x22 # '': []}''"

definition fresh_world :: world where
  "fresh_world = \<lparr>cache_file = Missing, requests_log = [], save_calls = [], stdout = []\<rparr>"

definition radius_url :: string where
  "radius_url = ''http://www.mapquestapi.com/search/v2/radius''"

section \<open>Auxiliary notions\<close>



section \<open>Stripping\<close>

lemma rev_dropWhile_split: "rev (dropWhile P (rev t)) @ rev (takeWhile P (rev t)) = t"
  by (metis rev_append rev_rev_ident takeWhile_dropWhile_id)

lemma list_all_takeWhile: "list_all P (takeWhile P s)"
  by (induction s) auto

lemma strip_with_split:
  "\<exists>pre post. s = pre @ strip_with P s @ post \<and> list_all P pre \<and> list_all P post"
proof -
  let ?t = "dropWhile P s"
  have "s = takeWhile P s @ ?t" by simp
  also have "?t = strip_with P s @ rev (takeWhile P (rev ?t))"
    by (simp add: strip_with_def rev_dropWhile_split)
  finally have "s = takeWhile P s @ strip_with P s @ rev (takeWhile P (rev ?t))" .
  moreover have "list_all P (takeWhile P s)" by (rule list_all_takeWhile)
  moreover have "list_all P (rev (takeWhile P (rev ?t)))"
    using list_all_takeWhile [of P "rev ?t"] by (simp add: list_all_iff)
  ultimately show ?thesis by blast
qed

lemma strip_with_last: "strip_with P s \<noteq> [] \<Longrightarrow> \<not> P (last (strip_with P s))"
  unfolding strip_with_def
  by (simp add: last_rev hd_dropWhile)

lemma strip_with_hd:
  assumes ne: "strip_with P s \<noteq> []"
  shows "\<not> P (hd (strip_with P s))"
proof -
  let ?t = "dropWhile P s"
  have 2: "?t = strip_with P s @ rev (takeWhile P (rev ?t))"
    by (simp add: strip_with_def rev_dropWhile_split)
  with ne have "hd ?t = hd (strip_with P s)" by (metis hd_append2)
  moreover from 2 ne have "?t \<noteq> []" by (metis Nil_is_append_conv)
  ultimately show ?thesis using hd_dropWhile by metis
qed

lemma strip_with_id:
  assumes "s \<noteq> []" "\<not> P (hd s)" "\<not> P (last s)"
  shows "strip_with P s = s"
proof -
  from assms have 1: "dropWhile P s = s" by (cases s) auto
  from assms have "rev s \<noteq> []" "\<not> P (hd (rev s))" by (simp_all add: hd_rev)
  then have "dropWhile P (rev s) = rev s" by (cases "rev s") auto
  with 1 show ?thesis by (simp add: strip_with_def)
qed

section \<open>The phone of a site\<close>

text \<open>
  C7, as the code has it. The constructor removes newline characters, and only those,
  from both ends of the phone text: the stored phone is the given text without a leading
  and a trailing run of newlines, and it neither begins nor ends with a newline.
\<close>

theorem NationalSite_phone_newlines:
  "\<exists>pre post. p = pre @ phone (NationalSite_init c n a z p u) @ post
      \<and> set pre \<subseteq> {CHR 0x0A} \<and> set post \<subseteq> {CHR 0x0A}
      \<and> (phone (NationalSite_init c n a z p u) = []
           \<or> (hd (phone (NationalSite_init c n a z p u)) \<noteq> CHR 0x0A
              \<and> last (phone (NationalSite_init c n a z p u)) \<noteq> CHR 0x0A))"
proof -
  let ?P = "\<lambda>c. c \<in> set [CHR 0x0A]"
  have ph: "phone (NationalSite_init c n a z p u) = strip_with ?P p"
    by (simp add: NationalSite_init_def strip_chars_def)
  obtain pre post where s: "p = pre @ strip_with ?P p @ post" "list_all ?P pre" "list_all ?P post"
    using strip_with_split [of p ?P] by blast
  then have "set pre \<subseteq> {CHR 0x0A}" "set post \<subseteq> {CHR 0x0A}"
    by (auto simp: list_all_iff)
  moreover have "strip_with ?P p = []
      \<or> (hd (strip_with ?P p) \<noteq> CHR 0x0A \<and> last (strip_with ?P p) \<noteq> CHR 0x0A)"
    using strip_with_hd [of ?P p] strip_with_last [of ?P p] by auto
  ultimately show ?thesis using s(1) unfolding ph by blast
qed

text \<open>
  C7, as the claim states it, fails: other whitespace stays. A telephone text with a
  space inside its newlines gives a site whose phone begins and ends with a space.
\<close>

theorem phone_whitespace_counterexample:
  "phone (site_of_texts ''Isle Royale'' ''National Park'' ''49931'' ''Houghton'' ''MI''
            (CHR 0x0A # '' (906) 482-0984 '' @ [CHR 0x0A])) = '' (906) 482-0984 ''
   \<and> isspace_chr (hd '' (906) 482-0984 '') \<and> isspace_chr (last '' (906) 482-0984 '')"
  by (simp add: site_of_texts_def NationalSite_init_def strip_chars_def strip_with_def
      isspace_chr_def)

section \<open>The site selection prompt: numerals\<close>

lemma of_char_digit_chr: "d < 10 \<Longrightarrow> (of_char (digit_chr d) :: nat) = 48 + d"
  by (simp add: digit_chr_def)

lemma isdigit_digit_chr: "d < 10 \<Longrightarrow> isdigit_chr (digit_chr d)"
  by (simp add: isdigit_chr_def of_char_digit_chr)

lemma str_nat_digits: "list_all isdigit_chr (str_nat n)"
proof (induction n rule: str_nat.induct)
  case (1 n)
  show ?case
  proof (cases "n < 10")
    case True
    then show ?thesis by (subst str_nat.simps) (simp add: isdigit_digit_chr)
  next
    case False
    then have "list_all isdigit_chr (str_nat (n div 10))" using 1 by simp
    moreover have "isdigit_chr (digit_chr (n mod 10))" by (simp add: isdigit_digit_chr)
    ultimately show ?thesis using False by (subst str_nat.simps) simp
  qed
qed

lemma str_nat_not_Nil: "str_nat n \<noteq> []"
  by (subst str_nat.simps) simp

lemma dec_value_snoc: "dec_value (ds @ [c]) = 10 * dec_value ds + (of_char c - 48)"
  by (simp add: dec_value_def)

lemma dec_value_str_nat: "dec_value (str_nat n) = n"
proof (induction n rule: str_nat.induct)
  case (1 n)
  show ?case
  proof (cases "n < 10")
    case True
    then show ?thesis by (subst str_nat.simps) (simp add: dec_value_def of_char_digit_chr)
  next
    case False
    then have "dec_value (str_nat (n div 10)) = n div 10" using 1 by simp
    then have "dec_value (str_nat (n div 10) @ [digit_chr (n mod 10)]) = n"
      by (simp add: dec_value_snoc of_char_digit_chr)
    then show ?thesis using False by (subst str_nat.simps) simp
  qed
qed

lemma digit_not_underscore: "isdigit_chr c \<Longrightarrow> c \<noteq> CHR ''_''"
  by (auto simp: isdigit_chr_def)

lemma digits_rest_all: "list_all isdigit_chr s \<Longrightarrow> digits_rest s"
  by (induction s) (auto simp: digit_not_underscore)

lemma digit_not_space: "isdigit_chr c \<Longrightarrow> \<not> isspace_chr c"
  by (auto simp: isdigit_chr_def isspace_chr_def Let_def)

lemma strip_digits:
  assumes "s \<noteq> []" "list_all isdigit_chr s"
  shows "strip s = s"
proof -
  from assms have "isdigit_chr (hd s)" "isdigit_chr (last s)"
    by (simp_all add: list_all_iff)
  then show ?thesis
    unfolding strip_def using assms(1) by (intro strip_with_id) (simp_all add: digit_not_space)
qed

lemma py_int_digits:
  assumes "s \<noteq> []" "list_all isdigit_chr s"
  shows "py_int s = Inr (int (dec_value s))"
proof -
  obtain c cs where s: "s = c # cs" using assms(1) by (cases s) auto
  with assms(2) have c: "isdigit_chr c" and cs: "list_all isdigit_chr cs" by simp_all
  from c have sign: "c \<noteq> CHR ''-''" "c \<noteq> CHR ''+''" by (auto simp: isdigit_chr_def)
  have ok: "digits_ok s" using c cs by (simp add: s digits_ok_def digits_rest_all)
  have flt: "filter (\<lambda>c. c \<noteq> CHR ''_'') s = s"
    using assms(2) by (simp add: filter_id_conv list_all_iff digit_not_underscore)
  show ?thesis
    using ok flt sign strip_digits [OF assms] by (simp add: py_int_def s)
qed

lemma lower_digit: "isdigit_chr c \<Longrightarrow> lower_chr c = c"
  by (auto simp: isdigit_chr_def lower_chr_def Let_def)

lemma lower_digits: "list_all isdigit_chr s \<Longrightarrow> lower s = s"
  by (induction s) (simp_all add: lower_def lower_digit)

lemma isnumeric_digits: "s \<noteq> [] \<Longrightarrow> list_all isdigit_chr s \<Longrightarrow> isnumeric s"
  by (auto simp: isnumeric_def list_all_iff isdigit_chr_def isnumeric_chr_def Let_def)

lemma site_select_digits:
  assumes "s \<noteq> []" "list_all isdigit_chr s"
  shows "site_select sites_list s =
     (if int (dec_value s) \<le> int (length sites_list)
      then (case py_index sites_list (int (dec_value s) - 1) of
              Inl e \<Rightarrow> Raised e | Inr site \<Rightarrow> Show_Nearby site)
      else Invalid_Input)"
proof -
  have "\<not> list_all isdigit_chr ''back''" "\<not> list_all isdigit_chr ''exit''"
    by (simp_all add: isdigit_chr_def)
  with assms(2) have "s \<noteq> ''back''" "s \<noteq> ''exit''" by auto
  then show ?thesis
    using assms by (simp add: site_select_def lower_digits isnumeric_digits py_int_digits)
qed

text \<open>With \<open>N\<close> sites listed, each of the numerals \<open>"1"\<close> to \<open>"N"\<close> selects the site
  of that number, a numeral above \<open>N\<close> is refused, and so is every line that is not
  numeric.\<close>

lemma site_select_in_range:
  assumes "1 \<le> n" "n \<le> length sites_list"
  shows "site_select sites_list (str_nat n) = Show_Nearby (sites_list ! (n - 1))"
proof -
  have "nat (int n - 1) = n - 1" by simp
  then show ?thesis using assms
    by (simp add: site_select_digits str_nat_not_Nil str_nat_digits dec_value_str_nat py_index_def)
qed

lemma site_select_above:
  assumes "length sites_list < n"
  shows "site_select sites_list (str_nat n) = Invalid_Input"
  using assms
  by (simp add: site_select_digits str_nat_not_Nil str_nat_digits dec_value_str_nat)

lemma site_select_not_numeric:
  assumes "\<not> isnumeric (lower line)" "lower line \<noteq> ''back''" "lower line \<noteq> ''exit''"
  shows "site_select sites_list line = Invalid_Input"
  using assms by (simp add: site_select_def)

text \<open>The test of the range has an upper bound only: \<open>"0"\<close> passes it, and the index
  \<open>-1\<close> that follows is the last site of a non-empty list.\<close>

lemma site_select_zero:
  assumes "sites_list \<noteq> []"
  shows "site_select sites_list ''0'' = Show_Nearby (last sites_list)"
proof -
  have d: "dec_value ''0'' = 0" by (simp add: dec_value_def)
  have "''0'' \<noteq> []" "list_all isdigit_chr ''0''" by (simp_all add: isdigit_chr_def)
  then have "site_select sites_list ''0'' =
      (case py_index sites_list (- 1) of Inl e \<Rightarrow> Raised e | Inr site \<Rightarrow> Show_Nearby site)"
    by (simp add: site_select_digits d)
  moreover have "py_index sites_list (- 1) = Inr (last sites_list)"
    using assms by (cases sites_list rule: rev_cases) (auto simp: py_index_def nth_append)
  ultimately show ?thesis by simp
qed

lemma site_select_zero_no_sites: "site_select [] ''0'' = Raised IndexError"
proof -
  have "''0'' \<noteq> []" "list_all isdigit_chr ''0''" by (simp_all add: isdigit_chr_def)
  then show ?thesis by (simp add: site_select_digits dec_value_def py_index_def)
qed

text \<open>A numeric character that is not a decimal digit passes \<open>isnumeric\<close> and makes
  \<open>int\<close> raise.\<close>

lemma site_select_superscript: "site_select sites_list [CHR 0xB2] = Raised ValueError"
  by (simp add: site_select_def lower_def lower_chr_def isnumeric_def isnumeric_chr_def
      py_int_def strip_def strip_with_def isspace_chr_def digits_ok_def isdigit_chr_def)

text \<open>
  C1: the claim says that the input \<open>"0"\<close> is rejected as out of range. With two sites
  listed, the code takes \<open>"0"\<close> as a selection and goes on to fetch and show the places
  near the second (the last) site.
\<close>

theorem site_select_zero_two_sites:
  "site_select [s1, s2] ''0'' = Show_Nearby s2"
  using site_select_zero [of "[s1, s2]"] by simp

section \<open>Flattening the places\<close>

text \<open>
  C2: the claim says that the category is the sentinel \<open>"no category"\<close> whenever both
  field names are absent or blank, and that flattening an entry never raises. For an
  entry with a name whose \<open>fields\<close> has neither category field, the code raises
  \<open>KeyError\<close> from the handler of the first \<open>try\<close>; for one whose first field is
  absent and whose second is blank, the category is the empty string.
\<close>

theorem category_fallback_raises:
  "make_nearby_instance_list
     (JObj [(''searchResults'',
        JArr [JObj [(''name'', JStr ''Cafe''),
                    (''fields'', JObj [(''address'', JStr ''1 Main St''), (''city'', JStr ''Houghton'')])]])])
   = Inl (KeyError ''group_sic_code_name_ext'')
   \<and> make_nearby_instance_list
     (JObj [(''searchResults'',
        JArr [JObj [(''name'', JStr ''Cafe''),
                    (''fields'', JObj [(''group_sic_code_name_ext'', JStr '' '')])]])])
   = Inr [\<lparr> nearby_name = JStr ''Cafe'', nearby_category = [],
            nearby_street_address = ''no address'', nearby_city_name = ''no city'' \<rparr>]"
  by (simp add: make_nearby_instance_list_def py_getitem_def py_iter_def nearby_of_member_def
      category_of_def street_address_of_def city_name_of_def field_text_def py_strip_def
      strip_def strip_with_def isspace_chr_def)

lemma street_address_lacking: "lacks_address member \<Longrightarrow> street_address_of member = ''no address''"
  by (auto simp: lacks_address_def street_address_of_def field_text_def py_getitem_def py_strip_def
      split: json.splits option.splits)

lemma flatten_members_all:
  "list_all (\<lambda>m. \<exists>p. nearby_of_member m = Inr p) members \<Longrightarrow>
   \<exists>ps. flatten_members members acc = Inr (acc @ ps)
      \<and> list_all2 (\<lambda>m p. nearby_of_member m = Inr p) members ps"
proof (induction members arbitrary: acc)
  case Nil
  then show ?case by simp
next
  case (Cons m ms)
  then obtain p where p: "nearby_of_member m = Inr p" by auto
  from Cons.prems have "list_all (\<lambda>m. \<exists>p. nearby_of_member m = Inr p) ms" by simp
  from Cons.IH [OF this, of "acc @ [p]"]
  obtain ps where ps: "flatten_members ms (acc @ [p]) = Inr ((acc @ [p]) @ ps)"
      "list_all2 (\<lambda>m p. nearby_of_member m = Inr p) ms ps"
    by blast
  then have "flatten_members (m # ms) acc = Inr (acc @ (p # ps))"
    using p by simp
  moreover have "list_all2 (\<lambda>m p. nearby_of_member m = Inr p) (m # ms) (p # ps)"
    using p ps(2) by simp
  ultimately show ?case by blast
qed

lemma nearby_of_member_ok:
  assumes "py_getitem member ''name'' = Inr n" "category_of member = Inr c"
  shows "nearby_of_member member =
     Inr \<lparr> nearby_name = n, nearby_category = c,
           nearby_street_address = street_address_of member,
           nearby_city_name = city_name_of member \<rparr>"
  using assms by (simp add: nearby_of_member_def)

text \<open>
  C6, as the code has it: when every entry has its name and its category is extracted
  without an exception, the list is flattened to one record per entry, in order, each
  with the name of its entry, and the record of an entry that lacks its address has the
  street address \<open>"no address"\<close>.
\<close>

theorem no_address_sentinel:
  assumes res: "py_getitem nearby_dict ''searchResults'' = Inr (JArr members)"
    and ok: "list_all (\<lambda>m. (\<exists>n. py_getitem m ''name'' = Inr n) \<and> (\<exists>c. category_of m = Inr c)) members"
  shows "\<exists>places. make_nearby_instance_list nearby_dict = Inr places
           \<and> length places = length members
           \<and> (\<forall>i < length members.
                 py_getitem (members ! i) ''name'' = Inr (nearby_name (places ! i))
                 \<and> (lacks_address (members ! i) \<longrightarrow>
                      nearby_street_address (places ! i) = ''no address''))"
proof -
  from ok have "list_all (\<lambda>m. \<exists>p. nearby_of_member m = Inr p) members"
    by (auto simp: list_all_iff nearby_of_member_def)
  then obtain ps where ps: "flatten_members members [] = Inr ([] @ ps)"
      "list_all2 (\<lambda>m p. nearby_of_member m = Inr p) members ps"
    using flatten_members_all by blast
  have m: "make_nearby_instance_list nearby_dict = Inr ps"
    using res ps(1) by (simp add: make_nearby_instance_list_def py_iter_def)
  have len: "length ps = length members" using ps(2) by (simp add: list_all2_lengthD)
  have "py_getitem (members ! i) ''name'' = Inr (nearby_name (ps ! i))
        \<and> (lacks_address (members ! i) \<longrightarrow> nearby_street_address (ps ! i) = ''no address'')"
    if i: "i < length members" for i
  proof -
    have p: "nearby_of_member (members ! i) = Inr (ps ! i)"
      using ps(2) i by (simp add: list_all2_conv_all_nth)
    from ok i obtain n c where nc: "py_getitem (members ! i) ''name'' = Inr n"
        "category_of (members ! i) = Inr c"
      by (auto simp: list_all_length)
    from nearby_of_member_ok [OF nc] p
    have "ps ! i = \<lparr> nearby_name = n, nearby_category = c,
           nearby_street_address = street_address_of (members ! i),
           nearby_city_name = city_name_of (members ! i) \<rparr>" by simp
    then show ?thesis using nc(1) by (simp add: street_address_lacking)
  qed
  with m len show ?thesis by blast
qed

theorem no_address_sentinel_witness:
  "py_getitem
     (JObj [(''searchResults'',
        JArr [JObj [(''name'', JStr ''Cafe''),
                    (''fields'', JObj [(''group_sic_code_name'', JStr ''Food'')])],
              JObj [(''name'', JStr ''Museum''),
                    (''fields'', JObj [(''group_sic_code_name'', JStr ''Art''),
                                       (''address'', JStr ''2 Elm St'')])]])])
     ''searchResults''
   = Inr (JArr [JObj [(''name'', JStr ''Cafe''),
                      (''fields'', JObj [(''group_sic_code_name'', JStr ''Food'')])],
                JObj [(''name'', JStr ''Museum''),
                      (''fields'', JObj [(''group_sic_code_name'', JStr ''Art''),
                                         (''address'', JStr ''2 Elm St'')])]])
   \<and> lacks_address (JObj [(''name'', JStr ''Cafe''),
                      (''fields'', JObj [(''group_sic_code_name'', JStr ''Food'')])])
   \<and> (\<exists>places. make_nearby_instance_list
         (JObj [(''searchResults'',
            JArr [JObj [(''name'', JStr ''Cafe''),
                        (''fields'', JObj [(''group_sic_code_name'', JStr ''Food'')])],
                  JObj [(''name'', JStr ''Museum''),
                        (''fields'', JObj [(''group_sic_code_name'', JStr ''Art''),
                                           (''address'', JStr ''2 Elm St'')])]])]) = Inr places
        \<and> length places = 2
        \<and> nearby_street_address (places ! 0) = ''no address'')"
proof -
  let ?m1 = "JObj [(''name'', JStr ''Cafe''),
                   (''fields'', JObj [(''group_sic_code_name'', JStr ''Food'')])]"
  let ?m2 = "JObj [(''name'', JStr ''Museum''),
                   (''fields'', JObj [(''group_sic_code_name'', JStr ''Art''),
                                      (''address'', JStr ''2 Elm St'')])]"
  let ?d = "JObj [(''searchResults'', JArr [?m1, ?m2])]"
  have res: "py_getitem ?d ''searchResults'' = Inr (JArr [?m1, ?m2])"
    by (simp add: py_getitem_def)
  have ok: "list_all (\<lambda>m. (\<exists>n. py_getitem m ''name'' = Inr n) \<and> (\<exists>c. category_of m = Inr c))
              [?m1, ?m2]"
    by (simp add: py_getitem_def category_of_def field_text_def py_strip_def)
  have lacks: "lacks_address ?m1" by (simp add: lacks_address_def)
  from no_address_sentinel [OF res ok] obtain places where
    p: "make_nearby_instance_list ?d = Inr places" "length places = length [?m1, ?m2]"
      "\<forall>i < length [?m1, ?m2].
         py_getitem ([?m1, ?m2] ! i) ''name'' = Inr (nearby_name (places ! i))
         \<and> (lacks_address ([?m1, ?m2] ! i) \<longrightarrow>
              nearby_street_address (places ! i) = ''no address'')"
    by blast
  from p(3) lacks have "nearby_street_address (places ! 0) = ''no address''" by auto
  with res lacks p(1,2) show ?thesis by auto
qed

text \<open>
  C6, as the claim states it, fails: the name of an entry is read outside any \<open>try\<close>.
  An entry without its name (and without an address) ends the loop with \<open>KeyError\<close>,
  and the entry after it is not processed.
\<close>

theorem missing_name_counterexample:
  "make_nearby_instance_list
     (JObj [(''searchResults'',
        JArr [JObj [(''fields'', JObj [(''group_sic_code_name'', JStr ''Food'')])],
              JObj [(''name'', JStr ''Museum''),
                    (''fields'', JObj [(''group_sic_code_name'', JStr ''Art''),
                                       (''address'', JStr ''2 Elm St'')])]])])
   = Inl (KeyError ''name'')"
  by (simp add: make_nearby_instance_list_def py_getitem_def py_iter_def nearby_of_member_def)

section \<open>Fetching a page through the cache\<close>

lemma dict_set_absent: "k \<notin> fst ` set kvs \<Longrightarrow> dict_set k v kvs = kvs @ [(k, v)]"
  by (induction kvs) auto



lemma py_getitem_present:
  "k \<in> fst ` set kvs \<Longrightarrow> \<exists>v. map_of kvs k = Some v \<and> py_getitem (JObj kvs) k = Inr v"
  by (auto simp: py_getitem_def map_of_eq_None_iff split: option.splits)


lemma save_cache_unlocked:
  "cache_file w \<noteq> Locked \<Longrightarrow>
   save_cache c w = (Inr (), w\<lparr>save_calls := save_calls w @ [c], cache_file := File (json_dumps c)\<rparr>)"
  by (cases "cache_file w") (simp_all add: save_cache_def Let_def)

lemma getitem_appended: "k \<notin> fst ` set kvs \<Longrightarrow> py_getitem (JObj (kvs @ [(k, v)])) k = Inr v"
proof -
  assume "k \<notin> fst ` set kvs"
  then have "map_of kvs k = None" by (simp add: map_of_eq_None_iff)
  then show ?thesis by (simp add: py_getitem_def map_add_def)
qed

lemma url_miss:
  assumes "url' \<notin> fst ` set kvs" "cache_file w \<noteq> Locked" "net (requests_log w) (url', []) = Inr body"
  shows "make_url_request_using_cache net url' (JObj kvs) w =
     (Inr (JStr body), JObj (kvs @ [(url', JStr body)]),
      w\<lparr>stdout := stdout w @ [''Fetching''], requests_log := requests_log w @ [(url', [])],
        save_calls := save_calls w @ [JObj (kvs @ [(url', JStr body)])],
        cache_file := File (json_dumps (JObj (kvs @ [(url', JStr body)])))\<rparr>)"
  using assms
  by (simp add: make_url_request_using_cache_def requests_get_def print_line_def
      save_cache_unlocked dict_set_absent getitem_appended Let_def)

lemma url_hit:
  assumes "url' \<in> fst ` set kvs"
  shows "\<exists>v. map_of kvs url' = Some v \<and>
     make_url_request_using_cache net url' (JObj kvs) w = (Inr v, JObj kvs, print_line ''Using cache'' w)"
  using assms py_getitem_present [OF assms]
  by (auto simp: make_url_request_using_cache_def)

text \<open>
  C3. With a dictionary as the cache: when the key is present, the stored value is
  returned and no request is sent, whatever the network would answer; when the key is
  absent (and the network answers and the file can be written), exactly one request is
  sent, its text is stored under the key, the whole dictionary is saved to the file, the
  text is returned, and a second call with the same key returns the stored text without
  a request, whatever the network would answer then.
\<close>

theorem url_request_hit_and_miss:
  "(url' \<in> fst ` set kvs \<longrightarrow>
      (\<exists>v. map_of kvs url' = Some v
         \<and> make_url_request_using_cache net url' (JObj kvs) w
             = (Inr v, JObj kvs, print_line ''Using cache'' w)
         \<and> requests_log (print_line ''Using cache'' w) = requests_log w))
   \<and> (url' \<notin> fst ` set kvs \<and> cache_file w \<noteq> Locked \<and> net (requests_log w) (url', []) = Inr body \<longrightarrow>
      (\<exists>w'. make_url_request_using_cache net url' (JObj kvs) w
               = (Inr (JStr body), JObj (kvs @ [(url', JStr body)]), w')
         \<and> requests_log w' = requests_log w @ [(url', [])]
         \<and> save_calls w' = save_calls w @ [JObj (kvs @ [(url', JStr body)])]
         \<and> cache_file w' = File (json_dumps (JObj (kvs @ [(url', JStr body)])))
         \<and> (\<forall>net2. make_url_request_using_cache net2 url' (JObj (kvs @ [(url', JStr body)])) w'
               = (Inr (JStr body), JObj (kvs @ [(url', JStr body)]), print_line ''Using cache'' w'))))"
proof (intro conjI impI)
  assume "url' \<in> fst ` set kvs"
  from url_hit [OF this, of net w]
  show "\<exists>v. map_of kvs url' = Some v
         \<and> make_url_request_using_cache net url' (JObj kvs) w
             = (Inr v, JObj kvs, print_line ''Using cache'' w)
         \<and> requests_log (print_line ''Using cache'' w) = requests_log w"
    by (auto simp: print_line_def)
next
  assume a: "url' \<notin> fst ` set kvs \<and> cache_file w \<noteq> Locked \<and> net (requests_log w) (url', []) = Inr body"
  let ?c = "JObj (kvs @ [(url', JStr body)])"
  let ?w = "w\<lparr>stdout := stdout w @ [''Fetching''], requests_log := requests_log w @ [(url', [])],
        save_calls := save_calls w @ [?c], cache_file := File (json_dumps ?c)\<rparr>"
  from a have m: "make_url_request_using_cache net url' (JObj kvs) w = (Inr (JStr body), ?c, ?w)"
    by (simp add: url_miss)
  have second: "make_url_request_using_cache net2 url' ?c ?w
       = (Inr (JStr body), ?c, print_line ''Using cache'' ?w)" for net2
  proof -
    have "url' \<in> fst ` set (kvs @ [(url', JStr body)])" by simp
    then show ?thesis
      using a unfolding make_url_request_using_cache_def
      by (simp add: getitem_appended del: set_append)
  qed
  show "\<exists>w'. make_url_request_using_cache net url' (JObj kvs) w = (Inr (JStr body), ?c, w')
         \<and> requests_log w' = requests_log w @ [(url', [])]
         \<and> save_calls w' = save_calls w @ [?c]
         \<and> cache_file w' = File (json_dumps ?c)
         \<and> (\<forall>net2. make_url_request_using_cache net2 url' ?c w'
               = (Inr (JStr body), ?c, print_line ''Using cache'' w'))"
    using m second by (intro exI [of _ ?w]) simp
qed


theorem url_request_hit_and_miss_witness:
  "(\<exists>v. map_of [(''https://www.nps.gov/index.htm'', JStr ''<html>'')] ''https://www.nps.gov/index.htm'' = Some v
      \<and> make_url_request_using_cache (\<lambda>h r. Inl RequestException) ''https://www.nps.gov/index.htm''
            (JObj [(''https://www.nps.gov/index.htm'', JStr ''<html>'')])
            \<lparr>cache_file = Missing, requests_log = [], save_calls = [], stdout = []\<rparr>
          = (Inr v, JObj [(''https://www.nps.gov/index.htm'', JStr ''<html>'')],
             \<lparr>cache_file = Missing, requests_log = [], save_calls = [], stdout = [''Using cache'']\<rparr>))
   \<and> (\<exists>w'. make_url_request_using_cache (\<lambda>h r. Inr ''<html>'') ''https://www.nps.gov/index.htm''
            (JObj []) \<lparr>cache_file = Missing, requests_log = [], save_calls = [], stdout = []\<rparr>
          = (Inr (JStr ''<html>''), JObj [(''https://www.nps.gov/index.htm'', JStr ''<html>'')], w')
      \<and> requests_log w' = [(''https://www.nps.gov/index.htm'', [])]
      \<and> save_calls w' = [JObj [(''https://www.nps.gov/index.htm'', JStr ''<html>'')]]
      \<and> make_url_request_using_cache (\<lambda>h r. Inl RequestException) ''https://www.nps.gov/index.htm''
            (JObj [(''https://www.nps.gov/index.htm'', JStr ''<html>'')]) w'
          = (Inr (JStr ''<html>''), JObj [(''https://www.nps.gov/index.htm'', JStr ''<html>'')],
             print_line ''Using cache'' w'))"
proof -
  let ?u = "''https://www.nps.gov/index.htm''"
  let ?w = "\<lparr>cache_file = Missing, requests_log = [], save_calls = [], stdout = []\<rparr>"
  have hit: "?u \<in> fst ` set [(?u, JStr ''<html>'')]" by simp
  have miss: "?u \<notin> fst ` set [] \<and> cache_file ?w \<noteq> Locked
      \<and> (\<lambda>h r. Inr ''<html>'') (requests_log ?w) (?u, []) = (Inr ''<html>'' :: py_error + string)"
    by simp
  from url_request_hit_and_miss [of ?u "[(?u, JStr ''<html>'')]" "\<lambda>h r. Inl RequestException" ?w]
    hit
  have 1: "\<exists>v. map_of [(?u, JStr ''<html>'')] ?u = Some v
      \<and> make_url_request_using_cache (\<lambda>h r. Inl RequestException) ?u (JObj [(?u, JStr ''<html>'')]) ?w
          = (Inr v, JObj [(?u, JStr ''<html>'')], print_line ''Using cache'' ?w)"
    by blast
  from url_request_hit_and_miss [of ?u "[]" "\<lambda>h r. Inr ''<html>''" ?w "''<html>''"] miss
  obtain w' where 2:
    "make_url_request_using_cache (\<lambda>h r. Inr ''<html>'') ?u (JObj []) ?w
       = (Inr (JStr ''<html>''), JObj ([] @ [(?u, JStr ''<html>'')]), w')"
    "requests_log w' = requests_log ?w @ [(?u, [])]"
    "save_calls w' = save_calls ?w @ [JObj ([] @ [(?u, JStr ''<html>'')])]"
    "\<forall>net2. make_url_request_using_cache net2 ?u (JObj ([] @ [(?u, JStr ''<html>'')])) w'
       = (Inr (JStr ''<html>''), JObj ([] @ [(?u, JStr ''<html>'')]), print_line ''Using cache'' w')"
    by blast
  from 1 have "\<exists>v. map_of [(?u, JStr ''<html>'')] ?u = Some v
      \<and> make_url_request_using_cache (\<lambda>h r. Inl RequestException) ?u (JObj [(?u, JStr ''<html>'')]) ?w
          = (Inr v, JObj [(?u, JStr ''<html>'')],
             \<lparr>cache_file = Missing, requests_log = [], save_calls = [], stdout = [''Using cache'']\<rparr>)"
    by (simp add: print_line_def)
  moreover from 2 have "\<exists>w'. make_url_request_using_cache (\<lambda>h r. Inr ''<html>'') ?u (JObj []) ?w
          = (Inr (JStr ''<html>''), JObj [(?u, JStr ''<html>'')], w')
      \<and> requests_log w' = [(?u, [])]
      \<and> save_calls w' = [JObj [(?u, JStr ''<html>'')]]
      \<and> make_url_request_using_cache (\<lambda>h r. Inl RequestException) ?u (JObj [(?u, JStr ''<html>'')]) w'
          = (Inr (JStr ''<html>''), JObj [(?u, JStr ''<html>'')], print_line ''Using cache'' w')"
    by (intro exI [of _ w']) simp
  ultimately show ?thesis by blast
qed

text \<open>
  C10. On a hit (the key is in the dictionary) the call returns with the cache file as
  it was and without a call of \<open>save_cache\<close>; a call after which the file or the
  list of \<open>save_cache\<close> calls differs was a miss.
\<close>

theorem url_request_frame:
  assumes "make_url_request_using_cache net url' cache w = (r, cache', w')"
  shows "(\<forall>kvs. cache = JObj kvs \<and> url' \<in> fst ` set kvs \<longrightarrow>
            cache_file w' = cache_file w \<and> save_calls w' = save_calls w)
       \<and> (save_calls w' \<noteq> save_calls w \<or> cache_file w' \<noteq> cache_file w \<longrightarrow>
            (\<exists>kvs. cache = JObj kvs \<and> url' \<notin> fst ` set kvs))"
  using assms
  by (auto simp: make_url_request_using_cache_def print_line_def requests_get_def save_cache_def
      Let_def split: json.splits if_splits sum.splits prod.splits file_state.splits)

theorem url_request_frame_witness:
  "make_url_request_using_cache (\<lambda>h r. Inr ''<new>'') ''https://www.nps.gov/index.htm''
     (JObj [(''https://www.nps.gov/index.htm'', JStr ''<html>'')])
     \<lparr>cache_file = File ''{}'', requests_log = [], save_calls = [], stdout = []\<rparr>
   = (Inr (JStr ''<html>''), JObj [(''https://www.nps.gov/index.htm'', JStr ''<html>'')],
      \<lparr>cache_file = File ''{}'', requests_log = [], save_calls = [], stdout = [''Using cache'']\<rparr>)
   \<and> cache_file \<lparr>cache_file = File ''{}'', requests_log = [], save_calls = [],
                   stdout = [''Using cache'']\<rparr> = File ''{}''
   \<and> save_calls \<lparr>cache_file = File ''{}'', requests_log = [], save_calls = [],
                   stdout = [''Using cache'']\<rparr> = []"
proof -
  let ?u = "''https://www.nps.gov/index.htm''"
  let ?w = "\<lparr>cache_file = File ''{}'', requests_log = [], save_calls = [], stdout = []\<rparr>"
  let ?w' = "\<lparr>cache_file = File ''{}'', requests_log = [], save_calls = [],
              stdout = [''Using cache'']\<rparr>"
  have run: "make_url_request_using_cache (\<lambda>h r. Inr ''<new>'') ?u (JObj [(?u, JStr ''<html>'')]) ?w
      = (Inr (JStr ''<html>''), JObj [(?u, JStr ''<html>'')], ?w')"
    by (simp add: make_url_request_using_cache_def py_getitem_def print_line_def)
  from url_request_frame [OF run]
  have "cache_file ?w' = cache_file ?w \<and> save_calls ?w' = save_calls ?w" by simp
  with run show ?thesis by simp
qed

section \<open>The places request\<close>

lemma load_ok_unlocked: "load_cache w = Inr c \<Longrightarrow> cache_file w \<noteq> Locked"
  by (auto simp: load_cache_def)

text \<open>
  C8. With a dictionary in the cache file, the site's name is the key of the lookup: if
  it is present the stored value is returned. If it is absent, one request is sent to the
  given URL with exactly the six query parameters of the claim (the API key, the site's
  zip code as origin, radius 10, maxMatches 10, ambiguities "ignore", outFormat "json"),
  and when the response decodes, it is returned and saved under the site's name.
\<close>

theorem api_request_params_and_key:
  assumes ld: "load_cache w = Inr (JObj kvs)"
  shows "(name site \<in> fst ` set kvs \<longrightarrow>
            (\<exists>v. map_of kvs (name site) = Some v
               \<and> make_request_with_cache_api net api_key url' site w
                   = (Inr v, print_line ''Using cache'' w)))
       \<and> (name site \<notin> fst ` set kvs \<longrightarrow>
            (\<exists>r w'. make_request_with_cache_api net api_key url' site w = (r, w')
               \<and> requests_log w' = requests_log w @
                    [(url', [(''key'', JStr api_key), (''origin'', JStr (zipcode site)),
                             (''radius'', JInt 10), (''maxMatches'', JInt 10),
                             (''ambiguities'', JStr ''ignore''), (''outFormat'', JStr ''json'')])]
               \<and> (\<forall>body response.
                     net (requests_log w)
                       (url', [(''key'', JStr api_key), (''origin'', JStr (zipcode site)),
                               (''radius'', JInt 10), (''maxMatches'', JInt 10),
                               (''ambiguities'', JStr ''ignore''), (''outFormat'', JStr ''json'')])
                       = Inr body
                     \<and> json_loads body = Inr response \<longrightarrow>
                     r = Inr response
                     \<and> save_calls w' = save_calls w @ [JObj (kvs @ [(name site, response)])]
                     \<and> cache_file w' = File (json_dumps (JObj (kvs @ [(name site, response)]))))))"
proof (intro conjI impI)
  assume hit: "name site \<in> fst ` set kvs"
  from py_getitem_present [OF hit] obtain v where
    v: "map_of kvs (name site) = Some v" "py_getitem (JObj kvs) (name site) = Inr v" by blast
  have "make_request_with_cache_api net api_key url' site w = (Inr v, print_line ''Using cache'' w)"
    using ld hit v(2) by (simp add: make_request_with_cache_api_def py_contains_def)
  with v(1) show "\<exists>v. map_of kvs (name site) = Some v
       \<and> make_request_with_cache_api net api_key url' site w = (Inr v, print_line ''Using cache'' w)"
    by blast
next
  assume miss: "name site \<notin> fst ` set kvs"
  let ?params = "[(''key'', JStr api_key), (''origin'', JStr (zipcode site)),
                  (''radius'', JInt 10), (''maxMatches'', JInt 10),
                  (''ambiguities'', JStr ''ignore''), (''outFormat'', JStr ''json'')]"
  let ?w1 = "w\<lparr>stdout := stdout w @ [''Fetching''], requests_log := requests_log w @ [(url', ?params)]\<rparr>"
  have unl: "cache_file ?w1 \<noteq> Locked" using load_ok_unlocked [OF ld] by simp
  show "\<exists>r w'. make_request_with_cache_api net api_key url' site w = (r, w')
      \<and> requests_log w' = requests_log w @ [(url', ?params)]
      \<and> (\<forall>body response.
            net (requests_log w) (url', ?params) = Inr body \<and> json_loads body = Inr response \<longrightarrow>
            r = Inr response
            \<and> save_calls w' = save_calls w @ [JObj (kvs @ [(name site, response)])]
            \<and> cache_file w' = File (json_dumps (JObj (kvs @ [(name site, response)]))))"
  proof (cases "net (requests_log w) (url', ?params)")
    case (Inl e)
    then have "make_request_with_cache_api net api_key url' site w = (Inl e, ?w1)"
      using ld miss
      by (simp add: make_request_with_cache_api_def py_contains_def api_params_def
          requests_get_def print_line_def)
    with Inl show ?thesis by simp
  next
    case (Inr body)
    show ?thesis
    proof (cases "json_loads body")
      case (Inl e)
      then have "make_request_with_cache_api net api_key url' site w = (Inl e, ?w1)"
        using ld miss Inr
        by (simp add: make_request_with_cache_api_def py_contains_def api_params_def
            requests_get_def print_line_def)
      with Inl Inr show ?thesis by simp
    next
      case resp: (Inr response)
      let ?c = "JObj (kvs @ [(name site, response)])"
      have "make_request_with_cache_api net api_key url' site w
          = (Inr response, ?w1\<lparr>save_calls := save_calls ?w1 @ [?c], cache_file := File (json_dumps ?c)\<rparr>)"
        using ld miss Inr resp
        by (simp add: make_request_with_cache_api_def py_contains_def api_params_def
            requests_get_def print_line_def py_setitem_def dict_set_absent
            save_cache_unlocked [OF unl] getitem_appended
            del: json_dumps.simps)
      with Inr resp show ?thesis by simp
    qed
  qed
qed


lemma no_places_loads: "json_loads no_places_body = Inr (JObj [(''searchResults'', JArr [])])"
  unfolding no_places_body_def by code_simp

theorem api_request_params_and_key_witness:
  "load_cache fresh_world = Inr (JObj [])
   \<and> (\<exists>w'. make_request_with_cache_api (\<lambda>h r. Inr no_places_body) ''KEY'' radius_url isle_royale
              fresh_world
            = (Inr (JObj [(''searchResults'', JArr [])]), w')
        \<and> requests_log w' =
             [(radius_url, [(''key'', JStr ''KEY''), (''origin'', JStr ''49931''),
                            (''radius'', JInt 10), (''maxMatches'', JInt 10),
                            (''ambiguities'', JStr ''ignore''), (''outFormat'', JStr ''json'')])]
        \<and> save_calls w' = [JObj [(''Isle Royale'', JObj [(''searchResults'', JArr [])])]])
   \<and> load_cache (fresh_world\<lparr>cache_file :=
          File (CHR ''{'' # CHR 0x22 # ''Isle Royale'' @ CHR 0x22 # '': [1]}'')\<rparr>)
       = Inr (JObj [(''Isle Royale'', JArr [JInt 1])])
   \<and> make_request_with_cache_api (\<lambda>h r. Inl RequestException) ''KEY'' radius_url isle_royale
        (fresh_world\<lparr>cache_file :=
           File (CHR ''{'' # CHR 0x22 # ''Isle Royale'' @ CHR 0x22 # '': [1]}'')\<rparr>)
       = (Inr (JArr [JInt 1]),
          print_line ''Using cache'' (fresh_world\<lparr>cache_file :=
            File (CHR ''{'' # CHR 0x22 # ''Isle Royale'' @ CHR 0x22 # '': [1]}'')\<rparr>))"
proof -
  let ?params = "[(''key'', JStr ''KEY''), (''origin'', JStr ''49931''),
                  (''radius'', JInt 10), (''maxMatches'', JInt 10),
                  (''ambiguities'', JStr ''ignore''), (''outFormat'', JStr ''json'')]"
  let ?w2 = "fresh_world\<lparr>cache_file :=
               File (CHR ''{'' # CHR 0x22 # ''Isle Royale'' @ CHR 0x22 # '': [1]}'')\<rparr>"
  have nm: "name isle_royale = ''Isle Royale''" and zp: "zipcode isle_royale = ''49931''"
    by (simp_all add: isle_royale_def NationalSite_init_def)
  have ld1: "load_cache fresh_world = Inr (JObj [])"
    by (simp add: load_cache_def fresh_world_def)
  have file2: "json_loads (CHR ''{'' # CHR 0x22 # ''Isle Royale'' @ CHR 0x22 # '': [1]}'')
      = Inr (JObj [(''Isle Royale'', JArr [JInt 1])])"
    by code_simp
  have ld2: "load_cache ?w2 = Inr (JObj [(''Isle Royale'', JArr [JInt 1])])"
    using file2 by (simp add: load_cache_def fresh_world_def)
  have miss: "name isle_royale \<notin> fst ` set []" by simp
  have hit: "name isle_royale \<in> fst ` set [(''Isle Royale'', JArr [JInt 1])]" by (simp add: nm)
  from api_request_params_and_key [OF ld1, of isle_royale "\<lambda>h r. Inr no_places_body" "''KEY''" radius_url]
    miss
  obtain r w' where m:
    "make_request_with_cache_api (\<lambda>h r. Inr no_places_body) ''KEY'' radius_url isle_royale fresh_world
       = (r, w')"
    "requests_log w' = requests_log fresh_world @ [(radius_url,
        [(''key'', JStr ''KEY''), (''origin'', JStr (zipcode isle_royale)),
         (''radius'', JInt 10), (''maxMatches'', JInt 10),
         (''ambiguities'', JStr ''ignore''), (''outFormat'', JStr ''json'')])]"
    "\<forall>body response.
        (\<lambda>h r. Inr no_places_body) (requests_log fresh_world)
          (radius_url, [(''key'', JStr ''KEY''), (''origin'', JStr (zipcode isle_royale)),
             (''radius'', JInt 10), (''maxMatches'', JInt 10),
             (''ambiguities'', JStr ''ignore''), (''outFormat'', JStr ''json'')])
          = (Inr body :: py_error + string)
        \<and> json_loads body = Inr response \<longrightarrow>
        r = Inr response
        \<and> save_calls w' = save_calls fresh_world @ [JObj ([] @ [(name isle_royale, response)])]
        \<and> cache_file w' = File (json_dumps (JObj ([] @ [(name isle_royale, response)])))"
    by blast
  from m(3) no_places_loads
  have r: "r = Inr (JObj [(''searchResults'', JArr [])])"
    and sv: "save_calls w' = save_calls fresh_world
               @ [JObj ([] @ [(name isle_royale, JObj [(''searchResults'', JArr [])])])]"
    by blast+
  from api_request_params_and_key [OF ld2, of isle_royale "\<lambda>h r. Inl RequestException" "''KEY''" radius_url]
    hit
  have h: "make_request_with_cache_api (\<lambda>h r. Inl RequestException) ''KEY'' radius_url isle_royale ?w2
      = (Inr (JArr [JInt 1]), print_line ''Using cache'' ?w2)"
    by (auto simp: nm)
  have "\<exists>w'. make_request_with_cache_api (\<lambda>h r. Inr no_places_body) ''KEY'' radius_url isle_royale
              fresh_world
            = (Inr (JObj [(''searchResults'', JArr [])]), w')
        \<and> requests_log w' = [(radius_url, ?params)]
        \<and> save_calls w' = [JObj [(''Isle Royale'', JObj [(''searchResults'', JArr [])])]]"
    using m(1,2) r sv by (intro exI [of _ w']) (simp add: nm zp fresh_world_def)
  with ld1 ld2 h show ?thesis by blast
qed

section \<open>Decoding what \<open>json_dumps\<close> wrote: strings\<close>



lemma cons_res_Inr [simp]: "cons_res x (Inr (xs, r)) = Inr (x # xs, r)"
  by (simp add: cons_res_def)











section \<open>Decoding what \<open>json_dumps\<close> wrote: integers\<close>














section \<open>Decoding what \<open>json_dumps\<close> wrote: values\<close>



















lemma cons_res_InrD: "cons_res x R = Inr (ys, r) \<Longrightarrow> \<exists>xs. R = Inr (xs, r) \<and> ys = x # xs"
  by (auto simp: cons_res_def split: sum.splits)







section \<open>The decoder consumes its input and ends\<close>

lemma skip_ws_length: "length (skip_ws s) \<le> length s"
  by (simp add: skip_ws_def length_dropWhile_le)

lemma skip_ws_ConsD: "skip_ws s = d # r \<Longrightarrow> length r < length s"
  using skip_ws_length [of s] by simp

lemma cons_res_no_fuel: "cons_res x R = Inl e \<Longrightarrow> R = Inl e"
  by (auto simp: cons_res_def split: sum.splits)

lemma scanstring_consumes: "scanstring s = Inr (k, r) \<Longrightarrow> length r < length s"
proof (induction s arbitrary: k rule: scanstring.induct)
  case 1
  then show ?case by simp
next
  case (2 c cs)
  show ?case
  proof (cases "c = CHR 0x22")
    case True
    with 2(4) show ?thesis by simp
  next
    case q: False
    show ?thesis
    proof (cases "c = CHR 0x5C")
      case False
      with q 2(4) have "(of_char c :: nat) \<ge> 32" "cons_res c (scanstring cs) = Inr (k, r)"
        by (auto split: if_splits)
      then obtain k' where "scanstring cs = Inr (k', r)" by (auto dest: cons_res_InrD)
      with 2(3) q False \<open>(of_char c :: nat) \<ge> 32\<close> have "length r < length cs" by simp
      then show ?thesis by simp
    next
      case True
      show ?thesis
      proof (cases cs)
        case Nil
        with True q 2(4) show ?thesis by simp
      next
        case (Cons e rest)
        show ?thesis
        proof (cases "e = CHR ''u''")
          case u: True
          from 2(4) q True Cons u obtain uni where uni: "decode_u4 rest = Some uni" "uni < 256"
              "cons_res (char_of uni) (scanstring (drop 4 rest)) = Inr (k, r)"
            by (auto split: option.splits if_splits)
          then obtain k' where "scanstring (drop 4 rest) = Inr (k', r)" by (auto dest: cons_res_InrD)
          with 2(1) q True Cons u uni have "length r < length (drop 4 rest)" by simp
          then show ?thesis using Cons by simp
        next
          case nu: False
          from 2(4) q True Cons nu obtain ch where ch: "unescape_chr e = Some ch"
              "cons_res ch (scanstring rest) = Inr (k, r)"
            by (auto split: option.splits)
          then obtain k' where "scanstring rest = Inr (k', r)" by (auto dest: cons_res_InrD)
          with 2(2) q True Cons nu ch have "length r < length rest" by simp
          then show ?thesis using Cons by simp
        qed
      qed
    qed
  qed
qed

lemma scanstring_no_fuel: "scanstring s \<noteq> Inl RecursionError"
proof (induction s rule: scanstring.induct)
  case 1
  show ?case by simp
next
  case (2 c cs)
  show ?case
  proof
    assume a: "scanstring (c # cs) = Inl RecursionError"
    show False
    proof (cases "c = CHR 0x22")
      case True
      with a show ?thesis by simp
    next
      case q: False
      show ?thesis
      proof (cases "c = CHR 0x5C")
        case False
        with q a have "(of_char c :: nat) \<ge> 32" "cons_res c (scanstring cs) = Inl RecursionError"
          by (auto split: if_splits)
        then have "scanstring cs = Inl RecursionError" by (auto dest: cons_res_no_fuel)
        moreover have "\<not> (of_char c :: nat) < 32" using \<open>(of_char c :: nat) \<ge> 32\<close> by simp
        ultimately show ?thesis using 2(3) [OF q False] by simp
      next
        case True
        show ?thesis
        proof (cases cs)
          case Nil
          with True q a show ?thesis by simp
        next
          case (Cons e rest)
          show ?thesis
          proof (cases "e = CHR ''u''")
            case u: True
            from a q True Cons u obtain uni where uni: "decode_u4 rest = Some uni" "uni < 256"
                "cons_res (char_of uni) (scanstring (drop 4 rest)) = Inl RecursionError"
              by (auto split: option.splits if_splits)
            then have "scanstring (drop 4 rest) = Inl RecursionError"
              by (auto dest: cons_res_no_fuel)
            with 2(1) [OF q True Cons u uni(1,2)] show ?thesis by simp
          next
            case nu: False
            from a q True Cons nu obtain ch where ch: "unescape_chr e = Some ch"
                "cons_res ch (scanstring rest) = Inl RecursionError"
              by (auto split: option.splits)
            then have "scanstring rest = Inl RecursionError" by (auto dest: cons_res_no_fuel)
            with 2(2) [OF q True Cons nu ch(1)] show ?thesis by simp
          qed
        qed
      qed
    qed
  qed
qed

lemma scan_number_consumes: "scan_number s = Some (Inr (v, r)) \<Longrightarrow> length r < length s"
proof -
  assume a: "scan_number s = Some (Inr (v, r))"
  have dw: "length (dropWhile isdigit_chr xs) \<le> length xs" for xs
    by (rule length_dropWhile_le)
  from a show ?thesis
    using dw
    by (cases s)
      (auto simp: scan_number_def Let_def le_imp_less_Suc less_SucI
        split: list.splits if_splits)
qed

lemma scan_number_no_fuel: "scan_number s \<noteq> Some (Inl RecursionError)"
  by (auto simp: scan_number_def Let_def split: list.splits if_splits)


lemma scan_once_Suc_consumes:
  assumes elems': "\<forall>s vs r. parse_elems n s = Inr (vs, r) \<longrightarrow> length r < length s"
    and members': "\<forall>s ps r. parse_members n s = Inr (ps, r) \<longrightarrow> length r < length s"
    and run: "scan_once (Suc n) s = Inr (v, r)"
  shows "length r < length s"
proof -
  from elems' have elems: "\<And>s vs r. parse_elems n s = Inr (vs, r) \<Longrightarrow> length r < length s"
    by blast
  from members' have members: "\<And>s ps r. parse_members n s = Inr (ps, r) \<Longrightarrow> length r < length s"
    by blast
  show ?thesis
  proof (cases s)
    case Nil
    with run show ?thesis by simp
  next
    case (Cons c cs)
    consider (str) "c = CHR 0x22" | (obj) "c \<noteq> CHR 0x22" "c = CHR ''{''"
      | (arr) "c \<noteq> CHR 0x22" "c \<noteq> CHR ''{''" "c = CHR ''[''"
      | (other) "c \<noteq> CHR 0x22" "c \<noteq> CHR ''{''" "c \<noteq> CHR ''[''"
      by blast
    then show ?thesis
    proof cases
      case str
      with run Cons obtain k where "scanstring cs = Inr (k, r)"
        by (auto split: sum.splits prod.splits)
      then have "length r < length cs" by (rule scanstring_consumes)
      with Cons show ?thesis by simp
    next
      case obj
      show ?thesis
      proof (cases "skip_ws cs")
        case Nil
        with run Cons obj show ?thesis by simp
      next
        case sk: (Cons d r')
        then have l: "length r' < length cs" by (rule skip_ws_ConsD)
        from run \<open>s = c # cs\<close> obj sk
        have "r = r' \<or> (\<exists>pairs. parse_members n r' = Inr (pairs, r))"
          by (auto split: if_splits sum.splits prod.splits)
        then have "length r \<le> length r'" using members by (auto dest: less_imp_le)
        with l \<open>s = c # cs\<close> show ?thesis by simp
      qed
    next
      case arr
      show ?thesis
      proof (cases "skip_ws cs")
        case Nil
        with run Cons arr show ?thesis by simp
      next
        case sk: (Cons d r')
        then have l: "length r' < length cs" by (rule skip_ws_ConsD)
        from run \<open>s = c # cs\<close> arr sk
        have "r = r' \<or> (\<exists>vs. parse_elems n (d # r') = Inr (vs, r))"
          by (auto split: if_splits sum.splits prod.splits)
        then have "length r \<le> length r'" using elems [of "d # r'"] by auto
        with l \<open>s = c # cs\<close> show ?thesis by simp
      qed
    next
      case other
      have "r = drop 4 s \<or> r = drop 5 s \<or> scan_number s = Some (Inr (v, r))"
        using run Cons other by (auto split: if_splits option.splits)
      then show ?thesis using Cons by (auto dest: scan_number_consumes)
    qed
  qed
qed

lemma parse_elems_Suc_consumes:
  assumes once': "\<forall>s v r. scan_once n s = Inr (v, r) \<longrightarrow> length r < length s"
    and elems': "\<forall>s vs r. parse_elems n s = Inr (vs, r) \<longrightarrow> length r < length s"
    and run: "parse_elems (Suc n) s = Inr (vs, r)"
  shows "length r < length s"
proof -
  from once' have once: "\<And>s v r. scan_once n s = Inr (v, r) \<Longrightarrow> length r < length s" by blast
  from elems' have elems: "\<And>s vs r. parse_elems n s = Inr (vs, r) \<Longrightarrow> length r < length s"
    by blast
  show ?thesis
  proof (cases "scan_once n s")
    case (Inl e)
    with run show ?thesis by simp
  next
    case (Inr p)
    obtain v r1 where p: "p = (v, r1)" by (cases p)
    have l1: "length r1 < length s" using once Inr p by blast
    show ?thesis
    proof (cases "skip_ws r1")
      case Nil
      with run Inr p show ?thesis by simp
    next
      case (Cons d r')
      then have l2: "length r' < length r1" by (rule skip_ws_ConsD)
      from run Inr p Cons
      have "r = r' \<or> cons_res v (parse_elems n (skip_ws r')) = Inr (vs, r)"
        by (auto split: if_splits)
      then have "r = r' \<or> (\<exists>xs. parse_elems n (skip_ws r') = Inr (xs, r))"
        by (auto dest: cons_res_InrD)
      then have "length r \<le> length r'"
        using elems [of "skip_ws r'"] skip_ws_length [of r'] by auto
      with l1 l2 show ?thesis by simp
    qed
  qed
qed

lemma parse_members_Suc_consumes:
  assumes once': "\<forall>s v r. scan_once n s = Inr (v, r) \<longrightarrow> length r < length s"
    and members': "\<forall>s ps r. parse_members n s = Inr (ps, r) \<longrightarrow> length r < length s"
    and run: "parse_members (Suc n) s = Inr (ps, r)"
  shows "length r < length s"
proof -
  from once' have once: "\<And>s v r. scan_once n s = Inr (v, r) \<Longrightarrow> length r < length s" by blast
  from members' have members: "\<And>s ps r. parse_members n s = Inr (ps, r) \<Longrightarrow> length r < length s"
    by blast
  show ?thesis
  proof (cases "scanstring s")
    case (Inl e)
    with run show ?thesis by simp
  next
    case (Inr p)
    obtain key r0 where p: "p = (key, r0)" by (cases p)
    have l0: "length r0 < length s" using Inr p scanstring_consumes by blast
    show ?thesis
    proof (cases "skip_ws r0")
      case Nil
      with run Inr p show ?thesis by simp
    next
      case (Cons d r1)
      then have l1: "length r1 < length r0" by (rule skip_ws_ConsD)
      show ?thesis
      proof (cases "scan_once n (skip_ws r1)")
        case (Inl e)
        with run \<open>scanstring s = Inr p\<close> p Cons show ?thesis by (simp split: if_splits)
      next
        case val: (Inr q)
        obtain v r2 where q: "q = (v, r2)" by (cases q)
        have l2: "length r2 < length r1"
          using once [of "skip_ws r1" v r2] val q skip_ws_length [of r1] by simp
        show ?thesis
        proof (cases "skip_ws r2")
          case Nil
          with run \<open>scanstring s = Inr p\<close> p Cons val q show ?thesis by (simp split: if_splits)
        next
          case c2: (Cons d' r3)
          then have l3: "length r3 < length r2" by (rule skip_ws_ConsD)
          show ?thesis
          proof (cases "skip_ws r3")
            case Nil
            with run \<open>scanstring s = Inr p\<close> p Cons val q c2
            have "r = r3" by (auto split: if_splits)
            with l0 l1 l2 l3 show ?thesis by simp
          next
            case c3: (Cons q' r4)
            then have l4: "length r4 < length r3" by (rule skip_ws_ConsD)
            from run \<open>scanstring s = Inr p\<close> p Cons val q c2 c3
            have "r = r3 \<or> cons_res (key, v) (parse_members n r4) = Inr (ps, r)"
              by (auto split: if_splits)
            then have "r = r3 \<or> (\<exists>xs. parse_members n r4 = Inr (xs, r))"
              by (auto dest: cons_res_InrD)
            then have "length r \<le> length r3" using members [of r4] l4 by auto
            with l0 l1 l2 l3 show ?thesis by simp
          qed
        qed
      qed
    qed
  qed
qed

lemma parse_consumes:
  "(\<forall>s v r. scan_once n s = Inr (v, r) \<longrightarrow> length r < length s)
   \<and> (\<forall>s vs r. parse_elems n s = Inr (vs, r) \<longrightarrow> length r < length s)
   \<and> (\<forall>s ps r. parse_members n s = Inr (ps, r) \<longrightarrow> length r < length s)"
proof (induction n)
  case 0
  show ?case by simp
next
  case (Suc n)
  then have once: "\<forall>s v r. scan_once n s = Inr (v, r) \<longrightarrow> length r < length s"
    and elems: "\<forall>s vs r. parse_elems n s = Inr (vs, r) \<longrightarrow> length r < length s"
    and members: "\<forall>s ps r. parse_members n s = Inr (ps, r) \<longrightarrow> length r < length s"
    by blast+
  show ?case
    using scan_once_Suc_consumes [OF elems members] parse_elems_Suc_consumes [OF once elems]
      parse_members_Suc_consumes [OF once members]
    by blast
qed

lemma scan_once_consumes: "scan_once n s = Inr (v, r) \<Longrightarrow> length r < length s"
  using parse_consumes [of n] by blast


lemma scan_once_Suc_fuel:
  assumes elems': "\<forall>s. 2 * length s + 1 < n \<longrightarrow> parse_elems n s \<noteq> Inl RecursionError"
    and members': "\<forall>s. 2 * length s + 1 < n \<longrightarrow> parse_members n s \<noteq> Inl RecursionError"
    and len: "2 * length s < Suc n"
  shows "scan_once (Suc n) s \<noteq> Inl RecursionError"
proof
  assume run: "scan_once (Suc n) s = Inl RecursionError"
  show False
  proof (cases s)
    case Nil
    with run show ?thesis by simp
  next
    case (Cons c cs)
    consider (str) "c = CHR 0x22" | (obj) "c \<noteq> CHR 0x22" "c = CHR ''{''"
      | (arr) "c \<noteq> CHR 0x22" "c \<noteq> CHR ''{''" "c = CHR ''[''"
      | (other) "c \<noteq> CHR 0x22" "c \<noteq> CHR ''{''" "c \<noteq> CHR ''[''"
      by blast
    then show ?thesis
    proof cases
      case str
      with run Cons have "scanstring cs = Inl RecursionError"
        by (auto split: sum.splits prod.splits)
      then show ?thesis using scanstring_no_fuel by blast
    next
      case obj
      show ?thesis
      proof (cases "skip_ws cs")
        case Nil
        with run Cons obj show ?thesis by simp
      next
        case sk: (Cons d r')
        then have l: "length r' < length cs" by (rule skip_ws_ConsD)
        from run \<open>s = c # cs\<close> obj sk have "parse_members n r' = Inl RecursionError"
          by (auto split: if_splits sum.splits prod.splits)
        moreover have "2 * length r' + 1 < n" using l len \<open>s = c # cs\<close> by simp
        ultimately show ?thesis using members' by blast
      qed
    next
      case arr
      show ?thesis
      proof (cases "skip_ws cs")
        case Nil
        with run Cons arr show ?thesis by simp
      next
        case sk: (Cons d r')
        then have l: "length r' < length cs" by (rule skip_ws_ConsD)
        from run \<open>s = c # cs\<close> arr sk have "parse_elems n (d # r') = Inl RecursionError"
          by (auto split: if_splits sum.splits prod.splits)
        moreover have "2 * length (d # r') + 1 < n" using l len \<open>s = c # cs\<close> by simp
        ultimately show ?thesis using elems' by blast
      qed
    next
      case other
      have "scan_number s = Some (Inl RecursionError)"
        using run Cons other by (auto split: if_splits option.splits)
      then show ?thesis using scan_number_no_fuel by blast
    qed
  qed
qed

lemma parse_elems_Suc_fuel:
  assumes once': "\<forall>s. 2 * length s < n \<longrightarrow> scan_once n s \<noteq> Inl RecursionError"
    and elems': "\<forall>s. 2 * length s + 1 < n \<longrightarrow> parse_elems n s \<noteq> Inl RecursionError"
    and len: "2 * length s + 1 < Suc n"
  shows "parse_elems (Suc n) s \<noteq> Inl RecursionError"
proof
  assume run: "parse_elems (Suc n) s = Inl RecursionError"
  from len have "2 * length s < n" by simp
  with once' have ne: "scan_once n s \<noteq> Inl RecursionError" by blast
  show False
  proof (cases "scan_once n s")
    case (Inl e)
    with run ne show ?thesis by simp
  next
    case (Inr p)
    obtain v r1 where p: "p = (v, r1)" by (cases p)
    have l1: "length r1 < length s" using Inr p scan_once_consumes by blast
    show ?thesis
    proof (cases "skip_ws r1")
      case Nil
      with run Inr p show ?thesis by simp
    next
      case (Cons d r')
      then have l2: "length r' < length r1" by (rule skip_ws_ConsD)
      from run Inr p Cons have "cons_res v (parse_elems n (skip_ws r')) = Inl RecursionError"
        by (auto split: if_splits)
      then have "parse_elems n (skip_ws r') = Inl RecursionError" by (rule cons_res_no_fuel)
      moreover have "2 * length (skip_ws r') + 1 < n"
        using l1 l2 len skip_ws_length [of r'] by simp
      ultimately show ?thesis using elems' by blast
    qed
  qed
qed

lemma parse_members_Suc_fuel:
  assumes once': "\<forall>s. 2 * length s < n \<longrightarrow> scan_once n s \<noteq> Inl RecursionError"
    and members': "\<forall>s. 2 * length s + 1 < n \<longrightarrow> parse_members n s \<noteq> Inl RecursionError"
    and len: "2 * length s + 1 < Suc n"
  shows "parse_members (Suc n) s \<noteq> Inl RecursionError"
proof
  assume run: "parse_members (Suc n) s = Inl RecursionError"
  show False
  proof (cases "scanstring s")
    case (Inl e)
    with run have "scanstring s = Inl RecursionError" by simp
    then show ?thesis using scanstring_no_fuel by blast
  next
    case (Inr p)
    obtain key r0 where p: "p = (key, r0)" by (cases p)
    have l0: "length r0 < length s" using Inr p scanstring_consumes by blast
    show ?thesis
    proof (cases "skip_ws r0")
      case Nil
      with run Inr p show ?thesis by simp
    next
      case (Cons d r1)
      then have l1: "length r1 < length r0" by (rule skip_ws_ConsD)
      have "2 * length (skip_ws r1) < n" using l0 l1 len skip_ws_length [of r1] by simp
      with once' have ne: "scan_once n (skip_ws r1) \<noteq> Inl RecursionError" by blast
      show ?thesis
      proof (cases "scan_once n (skip_ws r1)")
        case (Inl e)
        with run \<open>scanstring s = Inr p\<close> p Cons ne show ?thesis by (simp split: if_splits)
      next
        case val: (Inr q)
        obtain v r2 where q: "q = (v, r2)" by (cases q)
        have l2: "length r2 < length r1"
          using scan_once_consumes [of n "skip_ws r1" v r2] val q skip_ws_length [of r1] by simp
        show ?thesis
        proof (cases "skip_ws r2")
          case Nil
          with run \<open>scanstring s = Inr p\<close> p Cons val q show ?thesis by (simp split: if_splits)
        next
          case c2: (Cons d' r3)
          then have l3: "length r3 < length r2" by (rule skip_ws_ConsD)
          show ?thesis
          proof (cases "skip_ws r3")
            case Nil
            with run \<open>scanstring s = Inr p\<close> p Cons val q c2 show ?thesis
              by (auto split: if_splits)
          next
            case c3: (Cons q' r4)
            then have l4: "length r4 < length r3" by (rule skip_ws_ConsD)
            from run \<open>scanstring s = Inr p\<close> p Cons val q c2 c3
            have "cons_res (key, v) (parse_members n r4) = Inl RecursionError"
              by (auto split: if_splits)
            then have "parse_members n r4 = Inl RecursionError" by (rule cons_res_no_fuel)
            moreover have "2 * length r4 + 1 < n" using l0 l1 l2 l3 l4 len by simp
            ultimately show ?thesis using members' by blast
          qed
        qed
      qed
    qed
  qed
qed

lemma parse_fuel:
  "(\<forall>s. 2 * length s < n \<longrightarrow> scan_once n s \<noteq> Inl RecursionError)
   \<and> (\<forall>s. 2 * length s + 1 < n \<longrightarrow> parse_elems n s \<noteq> Inl RecursionError)
   \<and> (\<forall>s. 2 * length s + 1 < n \<longrightarrow> parse_members n s \<noteq> Inl RecursionError)"
proof (induction n)
  case 0
  show ?case by simp
next
  case (Suc n)
  then have once: "\<forall>s. 2 * length s < n \<longrightarrow> scan_once n s \<noteq> Inl RecursionError"
    and elems: "\<forall>s. 2 * length s + 1 < n \<longrightarrow> parse_elems n s \<noteq> Inl RecursionError"
    and members: "\<forall>s. 2 * length s + 1 < n \<longrightarrow> parse_members n s \<noteq> Inl RecursionError"
    by blast+
  show ?case
    using scan_once_Suc_fuel [OF elems members] parse_elems_Suc_fuel [OF once elems]
      parse_members_Suc_fuel [OF once members]
    by blast
qed

text \<open>The bound that \<open>json_loads\<close> starts with is never used up: whatever the text, the
  decoder of the model ends with a value or with an error of the decoder.\<close>

lemma json_loads_no_fuel: "json_loads s \<noteq> Inl RecursionError"
proof -
  have "2 * length (skip_ws s) < Suc (2 * length s)" using skip_ws_length [of s] by simp
  then have "scan_once (Suc (2 * length s)) (skip_ws s) \<noteq> Inl RecursionError"
    using parse_fuel [of "Suc (2 * length s)"] by blast
  then show ?thesis
    unfolding json_loads_def
    by (auto simp del: scan_once.simps split: sum.splits prod.splits)
qed

section \<open>Saving and loading the cache\<close>






text \<open>
  C4, as the code has it. A missing file gives the empty mapping, and that is the only
  failure \<open>load_cache\<close> recovers from: a file that cannot be opened and a text that
  does not decode both end the call with their exception. The empty mapping is returned
  when the file is missing and also when the file holds a text that decodes to an empty
  dictionary.
\<close>

theorem load_cache_cases:
  "(cache_file w = Missing \<longrightarrow> load_cache w = Inr (JObj []))
   \<and> ((load_cache w = Inr (JObj []))
        = (cache_file w = Missing \<or> (\<exists>s. cache_file w = File s \<and> json_loads s = Inr (JObj []))))
   \<and> (cache_file w = Locked \<longrightarrow> load_cache w = Inl PermissionError)
   \<and> (\<forall>s e. cache_file w = File s \<and> json_loads s = Inl e \<longrightarrow> load_cache w = Inl e)"
  by (cases "cache_file w") (simp_all add: load_cache_def)

theorem load_cache_cases_witness:
  "cache_file fresh_world = Missing \<and> load_cache fresh_world = Inr (JObj [])
   \<and> cache_file (fresh_world\<lparr>cache_file := Locked\<rparr>) = Locked
   \<and> load_cache (fresh_world\<lparr>cache_file := Locked\<rparr>) = Inl PermissionError
   \<and> cache_file (fresh_world\<lparr>cache_file := File ''{''\<rparr>) = File ''{''
   \<and> json_loads ''{'' = Inl JSONDecodeError
   \<and> load_cache (fresh_world\<lparr>cache_file := File ''{''\<rparr>) = Inl JSONDecodeError"
proof -
  have m: "cache_file fresh_world = Missing" by (simp add: fresh_world_def)
  have l: "cache_file (fresh_world\<lparr>cache_file := Locked\<rparr>) = Locked" by simp
  have f: "cache_file (fresh_world\<lparr>cache_file := File ''{''\<rparr>) = File ''{''" by simp
  have bad: "json_loads ''{'' = Inl JSONDecodeError" by code_simp
  from load_cache_cases [of fresh_world] m have 1: "load_cache fresh_world = Inr (JObj [])" by blast
  from load_cache_cases [of "fresh_world\<lparr>cache_file := Locked\<rparr>"] l
  have 2: "load_cache (fresh_world\<lparr>cache_file := Locked\<rparr>) = Inl PermissionError" by blast
  from load_cache_cases [of "fresh_world\<lparr>cache_file := File ''{''\<rparr>"] f bad
  have 3: "load_cache (fresh_world\<lparr>cache_file := File ''{''\<rparr>) = Inl JSONDecodeError" by blast
  from m l f bad 1 2 3 show ?thesis by blast
qed

text \<open>
  C4, as the claim states it, fails in one direction: a cache file that exists and holds
  \<open>{}\<close> also gives the empty mapping.
\<close>

theorem empty_object_file_counterexample:
  "cache_file (fresh_world\<lparr>cache_file := File ''{}''\<rparr>) \<noteq> Missing
   \<and> load_cache (fresh_world\<lparr>cache_file := File ''{}''\<rparr>) = Inr (JObj [])"
proof -
  have "json_loads ''{}'' = Inr (JObj [])" by code_simp
  then show ?thesis by (simp add: load_cache_def)
qed














end
